theory Spec2Isabelle
  imports Complex_Main
begin

section \<open>JavaScript strings\<close>

text \<open>
  Query texts, templates and messages are JavaScript strings. They are modelled as
  \<open>string\<close>, one \<open>char\<close> per code unit, for ASCII text: the case conversions
  change the letters A-Z and a-z only, and white space is the six ASCII white-space
  characters that \<open>trim\<close> and the regular-expression class \<open>\s\<close> accept.
  Code units outside ASCII are carried along unchanged.
\<close>

definition dquote :: string where
  "dquote = [CHR 0x22]"

definition upperChars :: string where
  "upperChars = ''ABCDEFGHIJKLMNOPQRSTUVWXYZ''"

definition lowerChars :: string where
  "lowerChars = ''abcdefghijklmnopqrstuvwxyz''"

definition digitChars :: string where
  "digitChars = ''0123456789''"

definition toLowerChar :: "char \<Rightarrow> char" where
  "toLowerChar c = (case map_of (zip upperChars lowerChars) c of Some l \<Rightarrow> l | None \<Rightarrow> c)"

definition toUpperChar :: "char \<Rightarrow> char" where
  "toUpperChar c = (case map_of (zip lowerChars upperChars) c of Some u \<Rightarrow> u | None \<Rightarrow> c)"

definition toLowerCase :: "string \<Rightarrow> string" where
  "toLowerCase s = map toLowerChar s"

definition toUpperCase :: "string \<Rightarrow> string" where
  "toUpperCase s = map toUpperChar s"

definition isSpace :: "char \<Rightarrow> bool" where
  "isSpace c = (c \<in> set [CHR 0x09, CHR 0x0A, CHR 0x0B, CHR 0x0C, CHR 0x0D, CHR 0x20])"

definition isDigit :: "char \<Rightarrow> bool" where
  "isDigit c = (c \<in> set digitChars)"

text \<open>The class \<open>\w\<close> of regular expressions, and the line terminators that \<open>.\<close>
  does not match.\<close>

definition isWordChar :: "char \<Rightarrow> bool" where
  "isWordChar c =
     (c \<in> set upperChars \<or> c \<in> set lowerChars \<or> c \<in> set digitChars \<or> c = CHR ''_'')"

definition isLineTerminator :: "char \<Rightarrow> bool" where
  "isLineTerminator c = (c = CHR 0x0A \<or> c = CHR 0x0D)"

text \<open>\<open>String.prototype.trim\<close>: white space is dropped at both ends.\<close>

definition trim :: "string \<Rightarrow> string" where
  "trim s = rev (dropWhile isSpace (rev (dropWhile isSpace s)))"

text \<open>The right half of \<open>trim\<close>, on its own: white space dropped at the end.\<close>

definition dropTrailing :: "string \<Rightarrow> string" where
  "dropTrailing s = rev (dropWhile isSpace (rev s))"

text \<open>\<open>s.startsWith(k)\<close> and \<open>s.includes(k)\<close>, by a scan from the left.\<close>

fun startsWith :: "string \<Rightarrow> string \<Rightarrow> bool" where
  "startsWith s [] = True"
| "startsWith [] (k # ks) = False"
| "startsWith (c # cs) (k # ks) = (c = k \<and> startsWith cs ks)"

fun jsIncludes :: "string \<Rightarrow> string \<Rightarrow> bool" where
  "jsIncludes [] k = (k = [])"
| "jsIncludes (c # cs) k = (startsWith (c # cs) k \<or> jsIncludes cs k)"

text \<open>\<open>xs.join(sep)\<close> on an array of strings.\<close>

fun joinWith :: "string \<Rightarrow> string list \<Rightarrow> string" where
  "joinWith sep [] = []"
| "joinWith sep [x] = x"
| "joinWith sep (x # y # zs) = x @ sep @ joinWith sep (y # zs)"

text \<open>
  \<open>s.replace(/\s+/g, ' ')\<close>: every maximal run of white space becomes one space. The
  flag tells whether the scan is inside a run that has already produced its space.
\<close>

fun collapseSpaces :: "bool \<Rightarrow> string \<Rightarrow> string" where
  "collapseSpaces inRun [] = []"
| "collapseSpaces inRun (c # cs) =
     (if isSpace c then (if inRun then collapseSpaces True cs else CHR 0x20 # collapseSpaces True cs)
      else c # collapseSpaces False cs)"

definition replaceWhitespaceRuns :: "string \<Rightarrow> string" where
  "replaceWhitespaceRuns s = collapseSpaces False s"

text \<open>
  Numbers are integers here, and \<open>String(n)\<close> is their decimal numeral (the notation
  JavaScript uses below \<open>10^21\<close>).
\<close>

fun showNat :: "nat \<Rightarrow> string" where
  "showNat n = (if n < 10 then [digitChars ! n] else showNat (n div 10) @ [digitChars ! (n mod 10)])"

declare showNat.simps [simp del]

definition showInt :: "int \<Rightarrow> string" where
  "showInt i = (if i < 0 then CHR ''-'' # showNat (nat (- i)) else showNat (nat i))"

text \<open>\<open>parseInt(digits, 10)\<close> on a string of decimal digits.\<close>

definition digitValue :: "char \<Rightarrow> nat" where
  "digitValue c = length (takeWhile (\<lambda>d. d \<noteq> c) digitChars)"

definition parseDigits :: "string \<Rightarrow> int" where
  "parseDigits digits = int (foldl (\<lambda>acc c. acc * 10 + digitValue c) 0 digits)"

text \<open>
  \<open>s.replace(pattern, replacement)\<close> with a string pattern: only the first occurrence
  is replaced, and in the replacement text \<open>$$\<close> stands for a dollar sign, \<open>$&\<close> for
  the matched text, \<open>$`\<close> for the text preceding the match and \<open>$'\<close> for the text following
  it; any other \<open>$\<close> is literal, as a string pattern has no capture groups.
\<close>

fun splitFirst :: "string \<Rightarrow> string \<Rightarrow> (string \<times> string) option" where
  "splitFirst [] pat = (if pat = [] then Some ([], []) else None)"
| "splitFirst (c # cs) pat =
     (if startsWith (c # cs) pat then Some ([], drop (length pat) (c # cs))
      else map_option (\<lambda>(preceding, following). (c # preceding, following)) (splitFirst cs pat))"

fun getSubstitution :: "string \<Rightarrow> string \<Rightarrow> string \<Rightarrow> string \<Rightarrow> string" where
  "getSubstitution matched preceding following [] = []"
| "getSubstitution matched preceding following [c] = [c]"
| "getSubstitution matched preceding following (c # d # rest) =
     (if c = CHR ''$'' \<and> d = CHR ''$'' then CHR ''$'' # getSubstitution matched preceding following rest
      else if c = CHR ''$'' \<and> d = CHR ''&'' then matched @ getSubstitution matched preceding following rest
      else if c = CHR ''$'' \<and> d = CHR 0x60 then preceding @ getSubstitution matched preceding following rest
      else if c = CHR ''$'' \<and> d = CHR 0x27 then following @ getSubstitution matched preceding following rest
      else c # getSubstitution matched preceding following (d # rest))"

definition jsReplace :: "string \<Rightarrow> string \<Rightarrow> string \<Rightarrow> string" where
  "jsReplace s pat replacement =
     (case splitFirst s pat of
        None \<Rightarrow> s
      | Some (preceding, following) \<Rightarrow> preceding @ getSubstitution pat preceding following replacement @ following)"

section \<open>Optional values and falsy defaults\<close>

text \<open>
  Truthiness of an optional string, and the idiom \<open>x || d\<close>: the empty string and the
  number zero are falsy, as \<open>undefined\<close> is.
\<close>

definition truthyString :: "string option \<Rightarrow> bool" where
  "truthyString x = (case x of Some s \<Rightarrow> s \<noteq> [] | None \<Rightarrow> False)"

definition orString :: "string option \<Rightarrow> string \<Rightarrow> string" where
  "orString x d = (case x of Some s \<Rightarrow> (if s \<noteq> [] then s else d) | None \<Rightarrow> d)"

definition orInt :: "int option \<Rightarrow> int \<Rightarrow> int" where
  "orInt x d = (case x of Some n \<Rightarrow> (if n \<noteq> 0 then n else d) | None \<Rightarrow> d)"

section \<open>Errors\<close>

text \<open>
  A thrown \<open>Error\<close> is a value: functions that can throw return \<open>js_error + 'a\<close>,
  with \<open>Inl\<close> for the exception. \<open>Error m\<close> is \<open>new Error(m)\<close>, and
  \<open>TypeError\<close> is what the runtime itself raises.
\<close>

datatype js_error = Error string | TypeError string

section \<open>The mutation-keyword blacklist (validation.js)\<close>

definition MUTATION_KEYWORDS :: "string list" where
  "MUTATION_KEYWORDS = [''create'', ''update'', ''remove'', ''mutate'', ''delete'']"

definition mutationMessage :: "string \<Rightarrow> string" where
  "mutationMessage keyword =
     ''Mutation operations not allowed in query tool. Query contains: '' @ dquote @ keyword
       @ dquote @ ''. '' @ ''Use the mutate tool for write operations.''"

text \<open>The \<open>for ... of\<close> loop over the keywords, leaving at the first \<open>throw\<close>.\<close>

fun blockMutations_loop :: "string \<Rightarrow> string list \<Rightarrow> js_error + unit" where
  "blockMutations_loop lowerQuery [] = Inr ()"
| "blockMutations_loop lowerQuery (keyword # keywords) =
     (if jsIncludes lowerQuery keyword then Inl (Error (mutationMessage keyword))
      else blockMutations_loop lowerQuery keywords)"

definition blockMutations :: "string \<Rightarrow> js_error + unit" where
  "blockMutations query = blockMutations_loop (toLowerCase query) MUTATION_KEYWORDS"

section \<open>The date-range resolver (validation.js)\<close>

text \<open>
  A \<open>Date\<close> made from local components and read back through \<open>getFullYear\<close>,
  \<open>getMonth\<close> and \<open>getDate\<close> is the local calendar day it denotes, with the month
  counted from 0, or the invalid date. Time zones play no part, as the code never
  converts between local time and UTC. The bound of \<open>Date\<close>, some 275760 years on
  either side of 1970, is not modelled.
\<close>

datatype JsDate = LocalDate int int int | InvalidDate

record DateRange =
  start :: string
  end' :: string

definition isLeapYear :: "int \<Rightarrow> bool" where
  "isLeapYear y = ((y mod 4 = 0 \<and> y mod 100 \<noteq> 0) \<or> y mod 400 = 0)"

definition daysInMonth :: "int \<Rightarrow> int \<Rightarrow> int" where
  "daysInMonth y m =
     (if m = 1 then (if isLeapYear y then 29 else 28)
      else if m = 3 \<or> m = 5 \<or> m = 8 \<or> m = 10 then 30 else 31)"

text \<open>
  A day of the month outside the month rolls over into the months before or after, as
  \<open>new Date(y, m, 0)\<close> and \<open>setDate(getDate() - 7)\<close> rely on.
\<close>

function rollDays :: "int \<Rightarrow> int \<Rightarrow> int \<Rightarrow> JsDate" where
  "rollDays y m d =
     (if d < 1 then
        (if m = 0 then rollDays (y - 1) 11 (d + daysInMonth (y - 1) 11)
         else rollDays y (m - 1) (d + daysInMonth y (m - 1)))
      else if d > daysInMonth y m then
        (if m = 11 then rollDays (y + 1) 0 (d - daysInMonth y m)
         else rollDays y (m + 1) (d - daysInMonth y m))
      else LocalDate y m d)"
  by pat_completeness auto
termination
  by (relation "measure (\<lambda>(y, m, d). if d < 1 then nat (1 - d) + 31 else nat d)")
    (auto simp: daysInMonth_def)

declare rollDays.simps [simp del]

definition makeDate :: "int \<Rightarrow> int \<Rightarrow> int \<Rightarrow> JsDate" where
  "makeDate y m d = rollDays (y + m div 12) (m mod 12) d"

text \<open>
  \<open>new Date(year, month, day)\<close>; an argument that is \<open>NaN\<close> is \<open>None\<close>. A year
  from 0 to 99 stands for a year of the twentieth century.
\<close>

definition newDate :: "int option \<Rightarrow> int option \<Rightarrow> int option \<Rightarrow> JsDate" where
  "newDate year month day =
     (case (year, month, day) of
        (Some y, Some m, Some d) \<Rightarrow> makeDate (if 0 \<le> y \<and> y \<le> 99 then 1900 + y else y) m d
      | _ \<Rightarrow> InvalidDate)"

fun getFullYear :: "JsDate \<Rightarrow> int option" where
  "getFullYear (LocalDate y m d) = Some y"
| "getFullYear InvalidDate = None"

fun getMonth :: "JsDate \<Rightarrow> int option" where
  "getMonth (LocalDate y m d) = Some m"
| "getMonth InvalidDate = None"

fun getDate :: "JsDate \<Rightarrow> int option" where
  "getDate (LocalDate y m d) = Some d"
| "getDate InvalidDate = None"

fun setDate :: "JsDate \<Rightarrow> int option \<Rightarrow> JsDate" where
  "setDate (LocalDate y m d) (Some day) = makeDate y m day"
| "setDate date day = InvalidDate"

text \<open>\<open>String(n)\<close> of a number that may be \<open>NaN\<close>, and \<open>s.padStart(n, c)\<close>.\<close>

definition showNumber :: "int option \<Rightarrow> string" where
  "showNumber n = (case n of Some i \<Rightarrow> showInt i | None \<Rightarrow> ''NaN'')"

definition padStart :: "string \<Rightarrow> nat \<Rightarrow> char \<Rightarrow> string" where
  "padStart s n c = replicate (n - length s) c @ s"

definition formatDate :: "JsDate \<Rightarrow> string" where
  "formatDate date =
     (let year = getFullYear date;
          month = padStart (showNumber (map_option (\<lambda>m. m + 1) (getMonth date))) 2 (CHR ''0'');
          day = padStart (showNumber (getDate date)) 2 (CHR ''0'')
      in showNumber year @ ''-'' @ month @ ''-'' @ day)"

text \<open>
  \<open>s.split('-')\<close>, and \<open>Number(s)\<close> on a string of decimal digits with white space
  around it, the empty string being 0. Every other string is read as \<open>NaN\<close>: the
  signs, fractions, exponents and hexadecimal numerals that \<open>Number\<close> also accepts do not
  occur in the dates of this program.
\<close>

fun splitOn :: "char \<Rightarrow> string \<Rightarrow> string list" where
  "splitOn sep [] = [[]]"
| "splitOn sep (c # cs) =
     (if c = sep then [] # splitOn sep cs
      else (case splitOn sep cs of w # ws \<Rightarrow> (c # w) # ws | [] \<Rightarrow> [[c]]))"

definition jsNumber :: "string \<Rightarrow> int option" where
  "jsNumber s =
     (let t = trim s in
      if t = [] then Some 0
      else if list_all isDigit t then Some (parseDigits t)
      else None)"

text \<open>The element \<open>i\<close> of \<open>s.split('-').map(Number)\<close>; a missing element is \<open>undefined\<close>,
  which behaves as \<open>NaN\<close> in the arithmetic that follows.\<close>

definition dateComponent :: "string \<Rightarrow> nat \<Rightarrow> int option" where
  "dateComponent s i =
     (let parts = splitOn (CHR ''-'') s in if i < length parts then jsNumber (parts ! i) else None)"

definition parseLocalDate :: "string \<Rightarrow> JsDate" where
  "parseLocalDate s =
     newDate (dateComponent s 0) (map_option (\<lambda>m. m - 1) (dateComponent s 1)) (dateComponent s 2)"

text \<open>
  The keys of \<open>ranges\<close>, in the order of the object literal. The lookup
  \<open>ranges[range]\<close> also finds the properties that every object inherits; none of them
  yields a pair of dates, and the call ends in a \<open>TypeError\<close>.
\<close>

definition RANGE_NAMES :: "string list" where
  "RANGE_NAMES = [''TODAY'', ''YESTERDAY'', ''LAST_7_DAYS'', ''LAST_14_DAYS'', ''LAST_30_DAYS'',
     ''LAST_90_DAYS'', ''THIS_MONTH'', ''LAST_MONTH'', ''CUSTOM'']"

definition OBJECT_PROTOTYPE_KEYS :: "string list" where
  "OBJECT_PROTOTYPE_KEYS = [''constructor'', ''__defineGetter__'', ''__defineSetter__'',
     ''hasOwnProperty'', ''__lookupGetter__'', ''__lookupSetter__'', ''isPrototypeOf'',
     ''propertyIsEnumerable'', ''toString'', ''valueOf'', ''__proto__'', ''toLocaleString'']"

definition daysBefore :: "JsDate \<Rightarrow> int \<Rightarrow> JsDate" where
  "daysBefore today n = setDate today (map_option (\<lambda>d. d - n) (getDate today))"

text \<open>\<open>validateDateRange\<close>; the first argument is the value of \<open>new Date()\<close>.\<close>

definition validateDateRange ::
    "JsDate \<Rightarrow> string \<Rightarrow> string option \<Rightarrow> string option \<Rightarrow> js_error + DateRange" where
  "validateDateRange now rangeName startDate endDate =
     (let today = newDate (getFullYear now) (getMonth now) (getDate now);
          formatted = (\<lambda>s e. Inr \<lparr> start = formatDate s, end' = formatDate e \<rparr>)
      in if rangeName = ''TODAY'' then formatted today today
         else if rangeName = ''YESTERDAY'' then formatted (daysBefore today 1) (daysBefore today 1)
         else if rangeName = ''LAST_7_DAYS'' then formatted (daysBefore today 7) today
         else if rangeName = ''LAST_14_DAYS'' then formatted (daysBefore today 14) today
         else if rangeName = ''LAST_30_DAYS'' then formatted (daysBefore today 30) today
         else if rangeName = ''LAST_90_DAYS'' then formatted (daysBefore today 90) today
         else if rangeName = ''THIS_MONTH''
           then formatted (newDate (getFullYear today) (getMonth today) (Some 1)) today
         else if rangeName = ''LAST_MONTH''
           then formatted
                  (newDate (getFullYear today) (map_option (\<lambda>m. m - 1) (getMonth today)) (Some 1))
                  (newDate (getFullYear today) (getMonth today) (Some 0))
         else if rangeName = ''CUSTOM''
           then (if \<not> truthyString startDate \<or> \<not> truthyString endDate
                 then Inl (Error ''start_date and end_date required for CUSTOM range'')
                 else formatted (parseLocalDate (the startDate)) (parseLocalDate (the endDate)))
         else if rangeName \<in> set OBJECT_PROTOTYPE_KEYS
           then Inl (TypeError ''ranges[range]() does not yield a pair of dates'')
         else Inl (Error (''Invalid date_range: '' @ rangeName @ ''. Allowed values: ''
                          @ joinWith '', '' RANGE_NAMES)))"

text \<open>A calendar date written as \<open>YYYY-MM-DD\<close> with zero padding.\<close>

definition isoDate :: "int \<Rightarrow> int \<Rightarrow> int \<Rightarrow> string" where
  "isoDate y m d =
     padStart (showInt y) 4 (CHR ''0'') @ ''-'' @ padStart (showInt m) 2 (CHR ''0'') @ ''-''
       @ padStart (showInt d) 2 (CHR ''0'')"

definition validCalendarDate :: "int \<Rightarrow> int \<Rightarrow> int \<Rightarrow> bool" where
  "validCalendarDate y m d = (1 \<le> m \<and> m \<le> 12 \<and> 1 \<le> d \<and> d \<le> daysInMonth y (m - 1))"

section \<open>The query-structure linter (query-validator.js)\<close>

record ValidationResult =
  valid :: bool
  warnings :: "string list"
  errors :: "string list"

text \<open>
  \<open>query.match(/\{\{[A-Z_]+\}\}/g)\<close>. At a position the pattern matches two opening
  braces, the longest run of capitals and underscores, which must not be empty, and two
  closing braces; a closing brace is not in the class, so no shorter run can match. The
  global search takes the matches from left to right, each search resuming after the
  previous match, and yields \<open>null\<close> when there is none.
\<close>

definition isTemplateNameChar :: "char \<Rightarrow> bool" where
  "isTemplateNameChar c = (c \<in> set upperChars \<or> c = CHR ''_'')"

definition matchTemplateVarAt :: "string \<Rightarrow> string option" where
  "matchTemplateVarAt s =
     (if startsWith s ''{{'' then
        (let name = takeWhile isTemplateNameChar (drop 2 s);
             rest = dropWhile isTemplateNameChar (drop 2 s)
         in if name \<noteq> [] \<and> startsWith rest ''}}'' then Some (''{{'' @ name @ ''}}'') else None)
      else None)"

fun scanTemplateVars :: "nat \<Rightarrow> string \<Rightarrow> string list" where
  "scanTemplateVars skip [] = []"
| "scanTemplateVars (Suc skip) (c # cs) = scanTemplateVars skip cs"
| "scanTemplateVars 0 (c # cs) =
     (case matchTemplateVarAt (c # cs) of
        Some m \<Rightarrow> m # scanTemplateVars (length m - 1) cs
      | None \<Rightarrow> scanTemplateVars 0 cs)"

definition matchTemplateVars :: "string \<Rightarrow> string list option" where
  "matchTemplateVars query =
     (case scanTemplateVars 0 query of [] \<Rightarrow> None | m # ms \<Rightarrow> Some (m # ms))"

text \<open>
  The three patterns of \<open>commonIssues\<close>, tested with the flag \<open>i\<close>: two characters
  match when their canonical (upper-case) forms are equal.
  \<^item> \<open>regexTestCI lit s\<close> is \<open>/lit/i.test(s)\<close> for a literal \<open>lit\<close>;
  \<^item> \<open>regexTestNotFollowedCI lit c s\<close> is \<open>/lit(?!c)/i.test(s)\<close>;
  \<^item> \<open>regexTestDotStarCI lit1 lit2 s\<close> is \<open>/lit1.*lit2/i.test(s)\<close>, where \<open>.\<close> matches
    every character but a line terminator.
\<close>

definition canonicalize :: "string \<Rightarrow> string" where
  "canonicalize s = map toUpperChar s"

definition regexTestCI :: "string \<Rightarrow> string \<Rightarrow> bool" where
  "regexTestCI lit s = jsIncludes (canonicalize s) (canonicalize lit)"

fun regexTestNotFollowedCI :: "string \<Rightarrow> char \<Rightarrow> string \<Rightarrow> bool" where
  "regexTestNotFollowedCI lit x [] = (lit = [])"
| "regexTestNotFollowedCI lit x (c # cs) =
     ((startsWith (canonicalize (c # cs)) (canonicalize lit)
        \<and> \<not> startsWith (canonicalize (drop (length lit) (c # cs))) (canonicalize [x]))
      \<or> regexTestNotFollowedCI lit x cs)"

fun dotStarThenCI :: "string \<Rightarrow> string \<Rightarrow> bool" where
  "dotStarThenCI lit [] = (lit = [])"
| "dotStarThenCI lit (c # cs) =
     (startsWith (canonicalize (c # cs)) (canonicalize lit)
      \<or> (\<not> isLineTerminator c \<and> dotStarThenCI lit cs))"

fun regexTestDotStarCI :: "string \<Rightarrow> string \<Rightarrow> string \<Rightarrow> bool" where
  "regexTestDotStarCI lit1 lit2 [] = (lit1 = [] \<and> lit2 = [])"
| "regexTestDotStarCI lit1 lit2 (c # cs) =
     ((startsWith (canonicalize (c # cs)) (canonicalize lit1)
        \<and> dotStarThenCI lit2 (drop (length lit1) (c # cs)))
      \<or> regexTestDotStarCI lit1 lit2 cs)"

text \<open>The entries of \<open>commonIssues\<close> are a test and the note to push.\<close>

definition commonIssues :: "((string \<Rightarrow> bool) \<times> string) list" where
  "commonIssues =
     [(regexTestCI ''conversions_value'', ''Should be conversions_value (with underscore)''),
      (regexTestNotFollowedCI ''conversion_value'' (CHR ''s''),
         ''Should be conversions_value (plural)''),
      (regexTestDotStarCI ''segments.product_item_id'' ''FROM shopping_performance_view'',
         ''segments.product_item_id may not be available in shopping_performance_view'')]"

text \<open>The \<open>forEach\<close> over the issues, pushing onto \<open>warnings\<close>.\<close>

fun pushIssues :: "((string \<Rightarrow> bool) \<times> string) list \<Rightarrow> string \<Rightarrow> string list \<Rightarrow> string list" where
  "pushIssues [] query pushed = pushed"
| "pushIssues ((pattern_test, note) # issues) query pushed =
     pushIssues issues query (if pattern_test query then pushed @ [note] else pushed)"

definition validateQuery :: "string \<Rightarrow> ValidationResult" where
  "validateQuery query =
     (let warnings = [];
          errors = [];
          templateVars = matchTemplateVars query;
          errors = (case templateVars of
                      Some vars \<Rightarrow> errors @ [''Unreplaced template variables: '' @ joinWith '', '' vars]
                    | None \<Rightarrow> errors);
          errors = (if \<not> startsWith (toUpperCase (trim query)) ''SELECT''
                    then errors @ [''Query must start with SELECT''] else errors);
          errors = (if \<not> jsIncludes (toUpperCase query) ''FROM''
                    then errors @ [''Query must include FROM clause''] else errors);
          warnings = pushIssues commonIssues query warnings;
          warnings = (if jsIncludes query ''keyword_view'' \<and> jsIncludes query ''segments.product_''
                      then warnings @ [''keyword_view and product segments may be incompatible'']
                      else warnings);
          warnings = (if jsIncludes query ''shopping_performance_view''
                          \<and> jsIncludes query ''ad_group_criterion.keyword''
                      then warnings @ [''shopping_performance_view and keyword fields may be incompatible'']
                      else warnings);
          warnings = (if jsIncludes query ''segments.date'' \<and> \<not> jsIncludes query ''WHERE''
                      then warnings @ [''Query uses segments.date but has no WHERE clause - may return too much data'']
                      else warnings)
      in \<lparr> valid = (length errors = 0), warnings = warnings, errors = errors \<rparr>)"

text \<open>
  \<open>logValidation\<close> writes one line to the error console when there are errors. The
  console is the list of the lines written.
\<close>

definition logValidation :: "string \<Rightarrow> ValidationResult \<Rightarrow> string list \<Rightarrow> string list" where
  "logValidation query validation console =
     (if length (errors validation) > 0
      then console @ [''GAQL validation errors: '' @ joinWith ''; '' (errors validation)]
      else console)"

section \<open>The query-template engine (gaql-templates.js)\<close>

text \<open>
  The substitution parameters of \<open>buildQuery\<close> are an object whose properties are all
  optional: \<open>None\<close> is an absent property (\<open>undefined\<close>). The metrics are an array of
  names, the dates an object with \<open>start\<close> and \<open>end\<close>, the thresholds and the limit are
  integers, and the minimum cost is an amount in currency units, a rational number here.
\<close>

record BuildParams =
  metrics :: "string list option"
  dates :: "DateRange option"
  filters :: "string option"
  orderBy :: "string option"
  limit :: "int option"
  minImpressions :: "int option"
  minCost :: "rat option"
  maxConversions :: "int option"
  resourceId :: "string option"
  date :: "string option"
  maxQualityScore :: "int option"
  segmentField :: "string option"
  statusFilter :: "string option"
  geoLevel :: "string option"

definition metricsStr :: "string list \<Rightarrow> string" where
  "metricsStr ms =
     joinWith '', '' (map (\<lambda>m. if startsWith m ''metrics.'' then m else ''metrics.'' @ m) ms)"

text \<open>
  \<open>buildQuery\<close>, statement by statement. It returns the query; the second component is
  the error console after the call.
\<close>

definition buildQuery :: "string \<Rightarrow> BuildParams \<Rightarrow> string list \<Rightarrow> string \<times> string list" where
  "buildQuery template params console =
     (let query = template;
          query = (case metrics params of
                     Some ms \<Rightarrow> jsReplace query ''{{METRICS}}'' (metricsStr ms)
                   | None \<Rightarrow> query);
          query = (case dates params of
                     Some d \<Rightarrow> jsReplace (jsReplace query ''{{START_DATE}}'' (start d))
                                 ''{{END_DATE}}'' (end' d)
                   | None \<Rightarrow> query);
          query = jsReplace query ''{{FILTERS}}'' (orString (filters params) '''');
          query = jsReplace query ''{{ORDER_BY}}'' (orString (orderBy params) ''metrics.cost_micros'');
          query = jsReplace query ''{{LIMIT}}'' (showInt (orInt (limit params) 50));
          query = jsReplace query ''{{MIN_IMPRESSIONS}}'' (showInt (orInt (minImpressions params) 10));
          query = (case minCost params of
                     Some cost \<Rightarrow>
                       jsReplace query ''{{MIN_COST_MICROS}}'' (showInt (round (cost * 1000000)))
                   | None \<Rightarrow> query);
          query = jsReplace query ''{{MAX_CONVERSIONS}}''
                    (showInt (case maxConversions params of Some n \<Rightarrow> n | None \<Rightarrow> 0));
          query = (case resourceId params of
                     Some r \<Rightarrow> jsReplace query ''{{RESOURCE_ID}}'' r
                   | None \<Rightarrow> query);
          query = (if truthyString (date params)
                   then jsReplace query ''{{DATE}}'' (the (date params)) else query);
          query = (case maxQualityScore params of
                     Some n \<Rightarrow> jsReplace query ''{{MAX_QUALITY_SCORE}}'' (showInt n)
                   | None \<Rightarrow> query);
          query = (if truthyString (segmentField params)
                   then jsReplace query ''{{SEGMENT_FIELD}}'' (the (segmentField params)) else query);
          query = (if truthyString (statusFilter params)
                   then jsReplace query ''{{STATUS_FILTER}}''
                          (''= '' @ [CHR 0x27] @ the (statusFilter params) @ [CHR 0x27])
                   else jsReplace query ''{{STATUS_FILTER}}'' ''IS NOT NULL'');
          query = (if truthyString (geoLevel params)
                   then jsReplace query ''{{GEO_LEVEL}}'' (the (geoLevel params)) else query);
          finalQuery = replaceWhitespaceRuns (trim query);
          validation = validateQuery finalQuery;
          console = (if \<not> valid validation then logValidation finalQuery validation console
                     else console)
      in (finalQuery, console))"

text \<open>The call \<open>buildQuery(template)\<close>, with the default \<open>params = {}\<close>.\<close>

definition emptyParams :: BuildParams where
  "emptyParams = \<lparr> metrics = None, dates = None, filters = None, orderBy = None, limit = None,
     minImpressions = None, minCost = None, maxConversions = None, resourceId = None,
     date = None, maxQualityScore = None, segmentField = None, statusFilter = None,
     geoLevel = None \<rparr>"

text \<open>The template \<open>TEMPLATES.CAMPAIGN_PERFORMANCE\<close>, line by line.\<close>

definition CAMPAIGN_PERFORMANCE :: string where
  "CAMPAIGN_PERFORMANCE = concat (map (\<lambda>line. line @ [CHR 0x0A])
     ['''',
      ''    SELECT'',
      ''      campaign.id,'',
      ''      campaign.name,'',
      ''      campaign.status,'',
      ''      campaign.advertising_channel_type,'',
      ''      {{METRICS}}'',
      ''    FROM campaign'',
      ''    WHERE segments.date BETWEEN '' @ [CHR 0x27] @ ''{{START_DATE}}'' @ [CHR 0x27]
         @ '' AND '' @ [CHR 0x27] @ ''{{END_DATE}}'' @ [CHR 0x27],
      ''      {{FILTERS}}'',
      ''    ORDER BY {{ORDER_BY}} DESC'',
      ''    LIMIT {{LIMIT}}'']) @ ''  ''"

text \<open>
  The substitutions as the specification lists them: each token with the text that
  replaces it, or \<open>None\<close> when the token is left alone. A substitution replaces the
  first occurrence of its token, if there is one.
\<close>

definition substitutionTable :: "BuildParams \<Rightarrow> (string \<times> string option) list" where
  "substitutionTable params =
     [(''{{METRICS}}'',
         map_option (\<lambda>ms. joinWith '', ''
            (map (\<lambda>m. if startsWith m ''metrics.'' then m else ''metrics.'' @ m) ms))
           (metrics params)),
      (''{{START_DATE}}'', map_option start (dates params)),
      (''{{END_DATE}}'', map_option end' (dates params)),
      (''{{FILTERS}}'', Some (case filters params of Some f \<Rightarrow> f | None \<Rightarrow> '''')),
      (''{{ORDER_BY}}'',
         Some (case orderBy params of
                 Some f \<Rightarrow> (if f = '''' then ''metrics.cost_micros'' else f)
               | None \<Rightarrow> ''metrics.cost_micros'')),
      (''{{LIMIT}}'',
         Some (showInt (case limit params of Some n \<Rightarrow> (if n = 0 then 50 else n) | None \<Rightarrow> 50))),
      (''{{MIN_IMPRESSIONS}}'',
         Some (showInt (case minImpressions params of
                          Some n \<Rightarrow> (if n = 0 then 10 else n) | None \<Rightarrow> 10))),
      (''{{MIN_COST_MICROS}}'',
         map_option (\<lambda>cost. showInt (round (cost * 1000000))) (minCost params)),
      (''{{MAX_CONVERSIONS}}'',
         Some (showInt (case maxConversions params of Some n \<Rightarrow> n | None \<Rightarrow> 0))),
      (''{{RESOURCE_ID}}'', resourceId params),
      (''{{DATE}}'', (case date params of Some d \<Rightarrow> (if d = '''' then None else Some d) | None \<Rightarrow> None)),
      (''{{MAX_QUALITY_SCORE}}'', map_option showInt (maxQualityScore params)),
      (''{{SEGMENT_FIELD}}'',
         (case segmentField params of Some f \<Rightarrow> (if f = '''' then None else Some f) | None \<Rightarrow> None)),
      (''{{STATUS_FILTER}}'',
         Some (case statusFilter params of
                 Some f \<Rightarrow> (if f = '''' then ''IS NOT NULL'' else ''= '' @ [CHR 0x27] @ f @ [CHR 0x27])
               | None \<Rightarrow> ''IS NOT NULL'')),
      (''{{GEO_LEVEL}}'',
         (case geoLevel params of Some g \<Rightarrow> (if g = '''' then None else Some g) | None \<Rightarrow> None))]"

definition applySubstitution :: "string \<Rightarrow> string \<times> string option \<Rightarrow> string" where
  "applySubstitution query sub =
     (case snd sub of Some text \<Rightarrow> jsReplace query (fst sub) text | None \<Rightarrow> query)"

text \<open>
  A placeholder token: two opening braces, a name without braces or white space that is
  not empty, two closing braces. Every token of the table has this form.
\<close>

definition isToken :: "string \<Rightarrow> bool" where
  "isToken tok =
     (\<exists>name. tok = ''{{'' @ name @ ''}}'' \<and> name \<noteq> []
        \<and> (\<forall>c \<in> set name. c \<noteq> CHR ''{'' \<and> c \<noteq> CHR ''}'' \<and> \<not> isSpace c))"

section \<open>The query tool (gaql-query.js)\<close>

text \<open>
  The parameters of \<open>runGaqlQuery\<close>: an optional account id, the query text and an
  optional integer limit. The default account id of the process environment is a second
  argument.
\<close>

record GaqlParams =
  customer_id :: "string option"
  query :: "string option"
  limit :: "int option"

text \<open>
  \<open>/\bLIMIT\s+\d+/i\<close> at a position: the five letters of LIMIT in any case, the longest
  run of white space, which must not be empty, and the longest run of digits, which must
  not be empty either (white space and digits being disjoint, no shorter run can lead to
  a match). The result is the length of the match and its digits.
\<close>

definition matchLimitAt :: "string \<Rightarrow> (nat \<times> string) option" where
  "matchLimitAt s =
     (let spaces = takeWhile isSpace (drop 5 s);
          digits = takeWhile isDigit (dropWhile isSpace (drop 5 s))
      in if canonicalize (take 5 s) = canonicalize ''LIMIT'' \<and> spaces \<noteq> [] \<and> digits \<noteq> []
         then Some (5 + length spaces + length digits, digits) else None)"

text \<open>
  The search for the first match, from left to right. The assertion \<open>\b\<close> holds
  before the letter L when the character before it is not a word character, or at the
  start of the text; the flag says whether the previous character is a word character.
  The result is the text before the match, the digits, and the text after the match.
\<close>

fun findLimit :: "bool \<Rightarrow> string \<Rightarrow> (string \<times> string \<times> string) option" where
  "findLimit prevIsWord [] = None"
| "findLimit prevIsWord (c # cs) =
     (case (if prevIsWord then None else matchLimitAt (c # cs)) of
        Some (n, digits) \<Rightarrow> Some ([], digits, drop n (c # cs))
      | None \<Rightarrow>
          map_option (\<lambda>(preceding, digits, following). (c # preceding, digits, following))
            (findLimit (isWordChar c) cs))"

text \<open>
  \<open>runGaqlQuery\<close> up to the call of the remote client: the checks, the limit and the
  final query. An error thrown on the way is the left result; the right result is the
  account id, the query that is executed and the limit that is applied.
\<close>

definition runGaqlQuery_prepare ::
    "GaqlParams \<Rightarrow> string option \<Rightarrow> js_error + (string \<times> string \<times> int)" where
  "runGaqlQuery_prepare params GOOGLE_ADS_DEFAULT_CUSTOMER_ID =
     (if \<not> truthyString (query params)
      then Inl (Error ''query parameter is required and must be a string'')
      else let query = trim (the (query params)) in
        if query = [] then Inl (Error ''query cannot be empty'')
        else case blockMutations query of
          Inl e \<Rightarrow> Inl e
        | Inr _ \<Rightarrow>
            if \<not> startsWith (toUpperCase query) ''SELECT''
            then Inl (Error (''Query must start with SELECT. This tool only supports read operations. ''
                              @ ''Use the mutate tool for write operations.''))
            else let customerId = orString (customer_id params)
                                    (orString GOOGLE_ADS_DEFAULT_CUSTOMER_ID []) in
              if customerId = []
              then Inl (Error ''customer_id parameter or GOOGLE_ADS_DEFAULT_CUSTOMER_ID environment variable required'')
              else let requestedLimit = orInt (limit params) 100;
                       maxLimit = 10000;
                       limit = min (max 1 requestedLimit) maxLimit;
                       hasLimit = (findLimit False query \<noteq> None);
                       finalQuery =
                         (if \<not> hasLimit then query @ '' LIMIT '' @ showInt limit
                          else case findLimit False query of
                            Some (preceding, digits, following) \<Rightarrow>
                              (let existingLimit = parseDigits digits in
                               if existingLimit > maxLimit
                               then preceding @ ''LIMIT '' @ showInt maxLimit @ following
                               else query)
                          | None \<Rightarrow> query)
                   in Inr (customerId, finalQuery, limit))"

text \<open>
  What it is for a text to have a LIMIT clause, in words: somewhere in it, not right
  after a word character, stand the letters of LIMIT in any case, then white space, then
  digits.
\<close>

definition hasLimitClause :: "string \<Rightarrow> bool" where
  "hasLimitClause q =
     (\<exists>pre kw ws ds post. q = pre @ kw @ ws @ ds @ post
        \<and> toUpperCase kw = ''LIMIT''
        \<and> ws \<noteq> [] \<and> (\<forall>c \<in> set ws. isSpace c)
        \<and> ds \<noteq> [] \<and> (\<forall>c \<in> set ds. isDigit c)
        \<and> (pre = [] \<or> \<not> isWordChar (last pre)))"

section \<open>Row flattening (gaql-query.js)\<close>

text \<open>
  A result row is a JSON-like value. An object is the list of its entries in the order
  \<open>Object.entries\<close> yields them. Numbers are rationals here: the division of a micros
  value by one million is exact, where JavaScript rounds to the nearest double.
\<close>

datatype row_value =
    RNull
  | RUndefined
  | RBool bool
  | RNum rat
  | RStr string
  | RArr "row_value list"
  | RObj "(string \<times> row_value) list"

text \<open>\<open>key.endsWith(suffix)\<close>.\<close>

definition endsWith :: "string \<Rightarrow> string \<Rightarrow> bool" where
  "endsWith s suffix = startsWith (rev s) (rev suffix)"

text \<open>
  The flattened row is an object that is only written by key, \<open>result[k] = v\<close>, and
  merged, \<open>Object.assign(result, other)\<close>: a map from keys to values, in which a later
  write to a key replaces an earlier one.
\<close>

fun flattenInto ::
    "(string \<rightharpoonup> row_value) \<Rightarrow> (string \<times> row_value) list \<Rightarrow> string \<Rightarrow> (string \<rightharpoonup> row_value)" where
  "flattenInto result [] prefix = result"
| "flattenInto result ((key, value) # entries) prefix =
     (let newKey = (if prefix \<noteq> [] then prefix @ ''.'' @ key else key);
          result =
            (case value of
               RNull \<Rightarrow> result(newKey \<mapsto> RNull)
             | RUndefined \<Rightarrow> result(newKey \<mapsto> RNull)
             | RObj nested \<Rightarrow> result ++ flattenInto Map.empty nested newKey
             | RArr items \<Rightarrow> result(newKey \<mapsto> value)
             | RNum n \<Rightarrow>
                 (if endsWith key ''_micros''
                  then (let baseKey = jsReplace newKey ''_micros'' ''''
                        in (result(baseKey \<mapsto> RNum (n / 1000000)))(newKey \<mapsto> value))
                  else result(newKey \<mapsto> value))
             | _ \<Rightarrow> result(newKey \<mapsto> value))
      in flattenInto result entries prefix)"

definition flattenRow :: "(string \<times> row_value) list \<Rightarrow> string \<Rightarrow> (string \<rightharpoonup> row_value)" where
  "flattenRow row prefix = flattenInto Map.empty row prefix"

text \<open>
  The flattening in the words of the specification. The leaves of a row are its values
  that are not objects, each with the path of keys that leads to it. A path is written as
  a dotted name. A leaf is written under its dotted name (\<open>null\<close> for a missing value);
  a numeric leaf whose key ends in \<open>_micros\<close> is written a second time, before that,
  divided by one million, under the dotted name with \<open>_micros\<close> removed.
\<close>

fun leaves :: "(string \<times> row_value) list \<Rightarrow> (string list \<times> row_value) list" where
  "leaves [] = []"
| "leaves ((key, RObj nested) # entries) =
     map (\<lambda>(path, v). (key # path, v)) (leaves nested) @ leaves entries"
| "leaves ((key, value) # entries) = ([key], value) # leaves entries"

definition dottedName :: "string \<Rightarrow> string list \<Rightarrow> string" where
  "dottedName prefix path = foldl (\<lambda>p key. if p \<noteq> [] then p @ ''.'' @ key else key) prefix path"

definition leafWrites :: "string \<Rightarrow> string list \<times> row_value \<Rightarrow> (string \<times> row_value) list" where
  "leafWrites prefix leaf =
     (let name = dottedName prefix (fst leaf) in
      case snd leaf of
        RNum n \<Rightarrow>
          (if endsWith (last (fst leaf)) ''_micros''
           then [(jsReplace name ''_micros'' '''', RNum (n / 1000000)), (name, RNum n)]
           else [(name, RNum n)])
      | RNull \<Rightarrow> [(name, RNull)]
      | RUndefined \<Rightarrow> [(name, RNull)]
      | v \<Rightarrow> [(name, v)])"

definition rowWrites :: "(string \<times> row_value) list \<Rightarrow> string \<Rightarrow> (string \<times> row_value) list" where
  "rowWrites row prefix = concat (map (leafWrites prefix) (leaves row))"

section \<open>Facts about strings\<close>

lemma startsWith_iff: "startsWith s k \<longleftrightarrow> (\<exists>r. s = k @ r)"
  by (induction s k rule: startsWith.induct) auto

lemma jsIncludes_iff: "jsIncludes s k \<longleftrightarrow> (\<exists>p r. s = p @ k @ r)"
proof (induction s)
  case Nil
  then show ?case by simp
next
  case (Cons c cs)
  show ?case
  proof
    assume "jsIncludes (c # cs) k"
    then consider "startsWith (c # cs) k" | "jsIncludes cs k" by auto
    then show "\<exists>p r. c # cs = p @ k @ r"
    proof cases
      case 1
      then obtain r where "c # cs = k @ r" by (auto simp: startsWith_iff)
      then have "c # cs = [] @ k @ r" by simp
      then show ?thesis by blast
    next
      case 2
      then obtain p r where "cs = p @ k @ r" using Cons.IH by blast
      then have "c # cs = (c # p) @ k @ r" by simp
      then show ?thesis by blast
    qed
  next
    assume "\<exists>p r. c # cs = p @ k @ r"
    then obtain p r where pr: "c # cs = p @ k @ r" by blast
    show "jsIncludes (c # cs) k"
    proof (cases p)
      case Nil
      then have "startsWith (c # cs) k" using pr by (auto simp: startsWith_iff)
      then show ?thesis by simp
    next
      case (Cons a p')
      then have "cs = p' @ k @ r" using pr by simp
      then have "jsIncludes cs k" using Cons.IH by blast
      then show ?thesis by simp
    qed
  qed
qed

lemma isSpace_cases:
  assumes "isSpace c"
  obtains "c = CHR 0x09" | "c = CHR 0x0A" | "c = CHR 0x0B" | "c = CHR 0x0C" | "c = CHR 0x0D"
    | "c = CHR 0x20"
  using assms by (auto simp: isSpace_def)

lemma toLowerChar_space: "isSpace c \<Longrightarrow> toLowerChar c = c"
  by (erule isSpace_cases) (simp_all add: toLowerChar_def upperChars_def lowerChars_def)

lemma toLowerCase_spaces: "\<forall>c \<in> set q. isSpace c \<Longrightarrow> toLowerCase q = q"
  by (induction q) (auto simp: toLowerCase_def toLowerChar_space)

lemma jsIncludes_set: "jsIncludes s k \<Longrightarrow> set k \<subseteq> set s"
  by (auto simp: jsIncludes_iff)

section \<open>Facts about the blacklist\<close>

lemma blockMutations_loop_passes:
  "blockMutations_loop lq ks = Inr u \<longleftrightarrow> (\<forall>k \<in> set ks. \<not> jsIncludes lq k)"
  by (induction ks) auto

lemma blockMutations_loop_first:
  "blockMutations_loop lq ks = Inl e \<Longrightarrow>
     \<exists>i < length ks. e = Error (mutationMessage (ks ! i)) \<and> jsIncludes lq (ks ! i)
        \<and> (\<forall>j < i. \<not> jsIncludes lq (ks ! j))"
proof (induction ks)
  case Nil
  then show ?case by simp
next
  case (Cons k ks)
  show ?case
  proof (cases "jsIncludes lq k")
    case True
    then have "e = Error (mutationMessage k)" using Cons.prems by simp
    then have "e = Error (mutationMessage ((k # ks) ! 0)) \<and> jsIncludes lq ((k # ks) ! 0)
        \<and> (\<forall>j < 0. \<not> jsIncludes lq ((k # ks) ! j))"
      using True by simp
    then show ?thesis by (intro exI[of _ 0]) simp
  next
    case False
    then have "blockMutations_loop lq ks = Inl e" using Cons.prems by simp
    then obtain i where i: "i < length ks" "e = Error (mutationMessage (ks ! i))"
        "jsIncludes lq (ks ! i)" "\<forall>j < i. \<not> jsIncludes lq (ks ! j)"
      using Cons.IH by blast
    have "\<forall>j < Suc i. \<not> jsIncludes lq ((k # ks) ! j)"
      using False i(4) by (auto simp: less_Suc_eq_0_disj)
    then show ?thesis using i by (intro exI[of _ "Suc i"]) simp
  qed
qed

lemma keyword_not_blank:
  "k \<in> set MUTATION_KEYWORDS \<Longrightarrow> \<exists>c \<in> set k. \<not> isSpace c"
proof -
  assume "k \<in> set MUTATION_KEYWORDS"
  then consider "k = ''create''" | "k = ''update''" | "k = ''remove''" | "k = ''mutate''"
    | "k = ''delete''"
    by (auto simp: MUTATION_KEYWORDS_def)
  then have "CHR ''e'' \<in> set k" by cases simp_all
  moreover have "\<not> isSpace (CHR ''e'')" by (simp add: isSpace_def)
  ultimately show ?thesis by blast
qed

section \<open>Facts about the case conversions\<close>

lemma upperChars_facts: "distinct upperChars" "length upperChars = 26"
  by (simp_all add: upperChars_def)

lemma lowerChars_facts: "distinct lowerChars" "length lowerChars = 26"
  by (simp_all add: lowerChars_def)

lemma upper_lower_disjoint: "c \<in> set upperChars \<Longrightarrow> c \<notin> set lowerChars"
  by (auto simp: upperChars_def lowerChars_def)

lemma map_of_zip_absent:
  "length xs = length ys \<Longrightarrow> c \<notin> set xs \<Longrightarrow> map_of (zip xs ys) c = None"
proof -
  assume len: "length xs = length ys" and c: "c \<notin> set xs"
  have "fst ` set (zip xs ys) = set (map fst (zip xs ys))" by simp
  also have "\<dots> = set xs" using len by simp
  finally show ?thesis using c by (simp add: map_of_eq_None_iff)
qed

lemma toLower_not_upper: "c \<notin> set upperChars \<Longrightarrow> toLowerChar c = c"
  by (simp add: toLowerChar_def map_of_zip_absent upperChars_facts lowerChars_facts)

lemma toUpper_not_lower: "c \<notin> set lowerChars \<Longrightarrow> toUpperChar c = c"
  by (simp add: toUpperChar_def map_of_zip_absent upperChars_facts lowerChars_facts)

lemma toLower_upper_nth: "i < 26 \<Longrightarrow> toLowerChar (upperChars ! i) = lowerChars ! i"
  by (simp add: toLowerChar_def map_of_zip_nth upperChars_facts lowerChars_facts)

lemma toUpper_lower_nth: "i < 26 \<Longrightarrow> toUpperChar (lowerChars ! i) = upperChars ! i"
  by (simp add: toUpperChar_def map_of_zip_nth upperChars_facts lowerChars_facts)

lemma toUpper_toLower: "toUpperChar (toLowerChar c) = toUpperChar c"
proof (cases "c \<in> set upperChars")
  case True
  then obtain i where i: "i < 26" "c = upperChars ! i"
    by (auto simp: in_set_conv_nth upperChars_facts)
  have "toUpperChar c = c"
    using True by (simp add: toUpper_not_lower upper_lower_disjoint)
  then show ?thesis using i by (simp add: toLower_upper_nth toUpper_lower_nth)
next
  case False
  then show ?thesis by (simp add: toLower_not_upper)
qed

lemma toUpperCase_toLowerCase: "toUpperCase (toLowerCase s) = toUpperCase s"
  by (simp add: toUpperCase_def toLowerCase_def toUpper_toLower)

lemma toUpperCase_append: "toUpperCase (a @ b) = toUpperCase a @ toUpperCase b"
  by (simp add: toUpperCase_def)

section \<open>Facts about the linter\<close>

lemma brace_not_name_char: "\<not> isTemplateNameChar (CHR ''}'')"
  by (simp add: isTemplateNameChar_def upperChars_def)

lemma matchTemplateVarAt_sound:
  assumes "matchTemplateVarAt s = Some m"
  shows "\<exists>name post. s = ''{{'' @ name @ ''}}'' @ post \<and> m = ''{{'' @ name @ ''}}''
           \<and> name \<noteq> [] \<and> (\<forall>c \<in> set name. isTemplateNameChar c)"
proof -
  define name where "name = takeWhile isTemplateNameChar (drop 2 s)"
  define rest where "rest = dropWhile isTemplateNameChar (drop 2 s)"
  from assms have st: "startsWith s ''{{''" and ne: "name \<noteq> []"
      and cl: "startsWith rest ''}}''" and m: "m = ''{{'' @ name @ ''}}''"
    by (auto simp: matchTemplateVarAt_def Let_def name_def rest_def split: if_splits)
  from st obtain r where r: "s = ''{{'' @ r" by (auto simp: startsWith_iff)
  from cl obtain post where post: "rest = ''}}'' @ post" by (auto simp: startsWith_iff)
  have "r = name @ rest"
    using r by (simp add: name_def rest_def)
  then have "s = ''{{'' @ name @ ''}}'' @ post" using r post by simp
  moreover have "\<forall>c \<in> set name. isTemplateNameChar c"
    unfolding name_def by (auto dest: set_takeWhileD)
  ultimately show ?thesis using m ne by blast
qed

lemma matchTemplateVarAt_complete:
  assumes "name \<noteq> []" "\<forall>c \<in> set name. isTemplateNameChar c"
  shows "matchTemplateVarAt (''{{'' @ name @ ''}}'' @ post) = Some (''{{'' @ name @ ''}}'')"
proof -
  have tw: "takeWhile isTemplateNameChar (name @ ''}}'' @ post) = name"
    using assms(2) by (simp add: takeWhile_append2 brace_not_name_char)
  have dw: "dropWhile isTemplateNameChar (name @ ''}}'' @ post) = ''}}'' @ post"
    using assms(2) by (simp add: dropWhile_append2 brace_not_name_char)
  show ?thesis
    using assms(1) tw dw by (simp add: matchTemplateVarAt_def)
qed

lemma scanTemplateVars_nonempty:
  "scanTemplateVars 0 s \<noteq> [] \<longleftrightarrow> (\<exists>pre rest. s = pre @ rest \<and> matchTemplateVarAt rest \<noteq> None)"
proof (induction s)
  case Nil
  then show ?case by (simp add: matchTemplateVarAt_def)
next
  case (Cons c cs)
  show ?case
  proof (cases "matchTemplateVarAt (c # cs)")
    case (Some m)
    then have "c # cs = [] @ (c # cs) \<and> matchTemplateVarAt (c # cs) \<noteq> None" by simp
    then have "\<exists>pre rest. c # cs = pre @ rest \<and> matchTemplateVarAt rest \<noteq> None" by blast
    then show ?thesis using Some by simp
  next
    case None
    have "(\<exists>pre rest. c # cs = pre @ rest \<and> matchTemplateVarAt rest \<noteq> None)
        \<longleftrightarrow> (\<exists>pre rest. cs = pre @ rest \<and> matchTemplateVarAt rest \<noteq> None)"
    proof
      assume "\<exists>pre rest. c # cs = pre @ rest \<and> matchTemplateVarAt rest \<noteq> None"
      then obtain pre rest where pr: "c # cs = pre @ rest" "matchTemplateVarAt rest \<noteq> None"
        by blast
      with None have "pre \<noteq> []" by auto
      then obtain pre' where "pre = c # pre'" "cs = pre' @ rest"
        using pr(1) by (cases pre) auto
      then show "\<exists>pre rest. cs = pre @ rest \<and> matchTemplateVarAt rest \<noteq> None"
        using pr(2) by blast
    next
      assume "\<exists>pre rest. cs = pre @ rest \<and> matchTemplateVarAt rest \<noteq> None"
      then obtain pre rest where "cs = pre @ rest" "matchTemplateVarAt rest \<noteq> None" by blast
      then have "c # cs = (c # pre) @ rest \<and> matchTemplateVarAt rest \<noteq> None" by simp
      then show "\<exists>pre rest. c # cs = pre @ rest \<and> matchTemplateVarAt rest \<noteq> None" by blast
    qed
    then show ?thesis using None Cons.IH by simp
  qed
qed

lemma matchTemplateVars_None_iff:
  "matchTemplateVars q = None \<longleftrightarrow>
     \<not> (\<exists>pre name post. q = pre @ ''{{'' @ name @ ''}}'' @ post \<and> name \<noteq> []
            \<and> (\<forall>c \<in> set name. isTemplateNameChar c))"
proof -
  have "matchTemplateVars q = None \<longleftrightarrow> scanTemplateVars 0 q = []"
    by (simp add: matchTemplateVars_def split: list.splits)
  also have "\<dots> \<longleftrightarrow> \<not> (\<exists>pre rest. q = pre @ rest \<and> matchTemplateVarAt rest \<noteq> None)"
    using scanTemplateVars_nonempty[of q] by blast
  also have "\<dots> \<longleftrightarrow> \<not> (\<exists>pre name post. q = pre @ ''{{'' @ name @ ''}}'' @ post \<and> name \<noteq> []
            \<and> (\<forall>c \<in> set name. isTemplateNameChar c))"
  proof -
    have "(\<exists>pre rest. q = pre @ rest \<and> matchTemplateVarAt rest \<noteq> None)
      \<longleftrightarrow> (\<exists>pre name post. q = pre @ ''{{'' @ name @ ''}}'' @ post \<and> name \<noteq> []
            \<and> (\<forall>c \<in> set name. isTemplateNameChar c))" (is "?L \<longleftrightarrow> ?R")
    proof
      assume ?L
      then obtain pre rest m where "q = pre @ rest" "matchTemplateVarAt rest = Some m" by auto
      then show ?R using matchTemplateVarAt_sound[of rest m] by metis
    next
      assume ?R
      then obtain pre name post where h: "q = pre @ ''{{'' @ name @ ''}}'' @ post" "name \<noteq> []"
            "\<forall>c \<in> set name. isTemplateNameChar c" by blast
      then have "matchTemplateVarAt (''{{'' @ name @ ''}}'' @ post) \<noteq> None"
        using matchTemplateVarAt_complete[of name post] by simp
      then show ?L using h(1) by blast
    qed
    then show ?thesis by simp
  qed
  finally show ?thesis .
qed

lemma validateQuery_errors_empty:
  "errors (validateQuery q) = [] \<longleftrightarrow>
     matchTemplateVars q = None \<and> startsWith (toUpperCase (trim q)) ''SELECT''
       \<and> jsIncludes (toUpperCase q) ''FROM''"
  by (auto simp: validateQuery_def Let_def split: option.splits)

lemma validateQuery_valid: "valid (validateQuery q) \<longleftrightarrow> errors (validateQuery q) = []"
  by (simp add: validateQuery_def Let_def)

lemma pushIssues_keeps: "set pushed \<subseteq> set (pushIssues issues q pushed)"
proof (induction issues arbitrary: pushed)
  case Nil
  then show ?case by simp
next
  case (Cons issue issues)
  obtain t n where issue: "issue = (t, n)" by (cases issue)
  have "set pushed \<subseteq> set (if t q then pushed @ [n] else pushed)" by auto
  also have "\<dots> \<subseteq> set (pushIssues issues q (if t q then pushed @ [n] else pushed))"
    by (rule Cons.IH)
  finally show ?case by (simp add: issue)
qed

lemma pushIssues_pushes:
  "(t, n) \<in> set issues \<Longrightarrow> t q \<Longrightarrow> n \<in> set (pushIssues issues q pushed)"
proof (induction issues arbitrary: pushed)
  case Nil
  then show ?case by simp
next
  case (Cons issue issues)
  show ?case
  proof (cases "issue = (t, n)")
    case True
    have "n \<in> set (pushed @ [n])" by simp
    then have "n \<in> set (pushIssues issues q (pushed @ [n]))"
      using pushIssues_keeps by blast
    then show ?thesis using True Cons.prems(2) by simp
  next
    case False
    then have "(t, n) \<in> set issues" using Cons.prems(1) by simp
    then show ?thesis
      using Cons.IH Cons.prems(2) by (cases issue) simp
  qed
qed

lemma validateQuery_warnings_keep:
  "set (pushIssues commonIssues q []) \<subseteq> set (warnings (validateQuery q))"
  by (auto simp: validateQuery_def Let_def)

lemma regexTestCI_lower:
  assumes "toLowerCase q = p @ toLowerCase lit @ r"
  shows "regexTestCI lit q"
proof -
  have "toUpperCase (toLowerCase q) = toUpperCase p @ toUpperCase (toLowerCase lit) @ toUpperCase r"
    using assms by (simp add: toUpperCase_append)
  then have "toUpperCase q = toUpperCase p @ toUpperCase lit @ toUpperCase r"
    by (simp add: toUpperCase_toLowerCase)
  then show ?thesis
    unfolding regexTestCI_def canonicalize_def jsIncludes_iff toUpperCase_def by blast
qed

section \<open>Facts about white space and numerals\<close>

subsection \<open>White space\<close>

lemma dropWhile_collapseSpaces:
  "dropWhile isSpace (collapseSpaces b s) = collapseSpaces False (dropWhile isSpace s)"
proof (induction s arbitrary: b)
  case Nil
  then show ?case by simp
next
  case (Cons c cs)
  have sp: "isSpace (CHR 0x20)" by (simp add: isSpace_def)
  show ?case using Cons.IH sp by simp
qed

lemma trim_dropTrailing: "trim s = dropTrailing (dropWhile isSpace s)"
  by (simp add: trim_def dropTrailing_def)

lemma dropTrailing_blank: "\<forall>c \<in> set s. isSpace c \<Longrightarrow> dropTrailing s = []"
  by (simp add: dropTrailing_def)

lemma dropTrailing_Cons:
  "dropTrailing (c # cs) = (if \<forall>x \<in> set (c # cs). isSpace x then [] else c # dropTrailing cs)"
  by (auto simp: dropTrailing_def dropWhile_append)

lemma collapseSpaces_blank:
  "\<forall>c \<in> set s. isSpace c \<Longrightarrow> collapseSpaces b s = (if b \<or> s = [] then [] else [CHR 0x20])"
  by (induction s arbitrary: b) auto

lemma collapseSpaces_blank_iff:
  "(\<forall>c \<in> set (collapseSpaces b s). isSpace c) \<longleftrightarrow> (\<forall>c \<in> set s. isSpace c)"
proof (induction s arbitrary: b)
  case Nil
  then show ?case by simp
next
  case (Cons c cs)
  have sp: "isSpace (CHR 0x20)" by (simp add: isSpace_def)
  show ?case using Cons.IH sp by auto
qed

lemma dropTrailing_collapseSpaces:
  "dropTrailing (collapseSpaces b s) = collapseSpaces b (dropTrailing s)"
proof (induction s arbitrary: b)
  case Nil
  then show ?case by (simp add: dropTrailing_def)
next
  case (Cons c cs)
  have sp: "isSpace (CHR 0x20)" by (simp add: isSpace_def)
  show ?case
  proof (cases "\<forall>x \<in> set (c # cs). isSpace x")
    case True
    then have "dropTrailing (c # cs) = []" by (rule dropTrailing_blank)
    moreover have "\<forall>x \<in> set (collapseSpaces b (c # cs)). isSpace x"
      using True collapseSpaces_blank_iff by blast
    then have "dropTrailing (collapseSpaces b (c # cs)) = []" by (rule dropTrailing_blank)
    ultimately show ?thesis by simp
  next
    case False
    then have dt: "dropTrailing (c # cs) = c # dropTrailing cs" by (simp add: dropTrailing_Cons)
    show ?thesis
    proof (cases "isSpace c")
      case True
      then have nb: "\<not> (\<forall>x \<in> set cs. isSpace x)" using False by simp
      then have nb': "\<not> (\<forall>x \<in> set (collapseSpaces True cs). isSpace x)"
        using collapseSpaces_blank_iff by blast
      have lhs: "dropTrailing (CHR 0x20 # collapseSpaces True cs)
          = CHR 0x20 # dropTrailing (collapseSpaces True cs)"
        using nb' by (simp add: dropTrailing_Cons)
      show ?thesis
      proof (cases b)
        case True
        then show ?thesis using \<open>isSpace c\<close> Cons.IH[of True] by (simp add: dt)
      next
        case False
        then show ?thesis using \<open>isSpace c\<close> Cons.IH[of True] lhs by (simp add: dt)
      qed
    next
      case False
      then show ?thesis using Cons.IH[of False] by (simp add: dt dropTrailing_Cons)
    qed
  qed
qed

lemma trim_replaceWhitespaceRuns:
  "trim (replaceWhitespaceRuns s) = replaceWhitespaceRuns (trim s)"
  by (simp add: trim_dropTrailing replaceWhitespaceRuns_def dropWhile_collapseSpaces
      dropTrailing_collapseSpaces)

subsection \<open>Decimal numerals\<close>

lemma showNat_nonempty: "showNat n \<noteq> []"
  by (subst showNat.simps) simp

lemma digitChars_facts: "distinct digitChars" "length digitChars = 10"
  by (simp_all add: digitChars_def)

lemma showNat_zero_iff: "showNat n = ''0'' \<longleftrightarrow> n = 0"
proof (cases "n < 10")
  case True
  have "digitChars ! n = digitChars ! 0 \<longleftrightarrow> n = 0"
    using True by (simp add: nth_eq_iff_index_eq digitChars_facts)
  moreover have "digitChars ! 0 = CHR ''0''" by (simp add: digitChars_def)
  ultimately show ?thesis using True by (subst showNat.simps) simp
next
  case False
  have "length (showNat n) = length (showNat (n div 10)) + 1"
    using False by (subst showNat.simps) simp
  moreover have "length (showNat (n div 10)) \<noteq> 0" using showNat_nonempty by simp
  ultimately have "length (showNat n) \<noteq> length ''0''" by simp
  then have "showNat n \<noteq> ''0''" by metis
  then show ?thesis using False by simp
qed

lemma showNat_digits: "set (showNat n) \<subseteq> set digitChars"
proof (induction n rule: showNat.induct)
  case (1 n)
  show ?case
  proof (cases "n < 10")
    case True
    then have "digitChars ! n \<in> set digitChars" by (simp add: digitChars_facts)
    then show ?thesis using True by (subst showNat.simps) simp
  next
    case False
    have "n mod 10 < length digitChars" by (simp add: digitChars_facts)
    then have "digitChars ! (n mod 10) \<in> set digitChars" by (rule nth_mem)
    then show ?thesis using False 1 by (subst showNat.simps) simp
  qed
qed

lemma showInt_zero_iff: "showInt i = ''0'' \<longleftrightarrow> i = 0"
proof (cases "i < 0")
  case True
  then show ?thesis by (simp add: showInt_def)
next
  case False
  then show ?thesis by (simp add: showInt_def showNat_zero_iff)
qed

section \<open>Facts about the template engine\<close>

lemma applySubstitution_Some [simp]: "applySubstitution q (tok, Some text) = jsReplace q tok text"
  by (simp add: applySubstitution_def)

lemma applySubstitution_None [simp]: "applySubstitution q (tok, None) = q"
  by (simp add: applySubstitution_def)

lemma orString_cases:
  "orString x d = (case x of Some f \<Rightarrow> (if f = '''' then d else f) | None \<Rightarrow> d)"
  by (simp add: orString_def split: option.splits)

lemma orString_empty: "orString x '''' = (case x of Some f \<Rightarrow> f | None \<Rightarrow> '''')"
  by (simp add: orString_def split: option.splits)

lemma orInt_cases:
  "orInt x d = (case x of Some n \<Rightarrow> (if n = 0 then d else n) | None \<Rightarrow> d)"
  by (simp add: orInt_def split: option.splits)

lemma truthy_step:
  "(if truthyString x then jsReplace q tok (the x) else q)
     = applySubstitution q (tok, case x of Some s \<Rightarrow> (if s = '''' then None else Some s) | None \<Rightarrow> None)"
  by (simp add: truthyString_def split: option.splits)

lemma status_step:
  "(if truthyString x then jsReplace q tok (a @ b @ the x @ b) else jsReplace q tok d)
     = applySubstitution q (tok, Some (case x of Some s \<Rightarrow> (if s = '''' then d else a @ b @ s @ b) | None \<Rightarrow> d))"
  by (simp add: truthyString_def split: option.splits)

lemma dates_step:
  "(case x of Some d \<Rightarrow> jsReplace (jsReplace q t1 (start d)) t2 (end' d) | None \<Rightarrow> q)
     = applySubstitution (applySubstitution q (t1, map_option start x)) (t2, map_option end' x)"
  by (cases x) simp_all

lemma metrics_step:
  "(case x of Some ms \<Rightarrow> jsReplace q tok (metricsStr ms) | None \<Rightarrow> q)
     = applySubstitution q (tok, map_option (\<lambda>ms. joinWith '', ''
            (map (\<lambda>m. if startsWith m ''metrics.'' then m else ''metrics.'' @ m) ms)) x)"
  by (cases x) (simp_all add: metricsStr_def)

lemma minCost_step:
  "(case x of Some cost \<Rightarrow> jsReplace q tok (showInt (round (cost * 1000000))) | None \<Rightarrow> q)
     = applySubstitution q (tok, map_option (\<lambda>cost. showInt (round (cost * 1000000))) x)"
  by (cases x) simp_all

lemma plain_step:
  "(case x of Some r \<Rightarrow> jsReplace q tok r | None \<Rightarrow> q) = applySubstitution q (tok, x)"
  by (cases x) simp_all

lemma showInt_step:
  "(case x of Some n \<Rightarrow> jsReplace q tok (showInt n) | None \<Rightarrow> q)
     = applySubstitution q (tok, map_option showInt x)"
  by (cases x) simp_all

lemma default_step: "jsReplace q tok text = applySubstitution q (tok, Some text)"
  by simp

lemma buildQuery_fold:
  "fst (buildQuery t p c)
     = replaceWhitespaceRuns (trim (foldl applySubstitution t (substitutionTable p)))"
  unfolding buildQuery_def Let_def fst_conv substitutionTable_def foldl_Cons foldl_Nil
  unfolding orString_empty
  unfolding metrics_step dates_step minCost_step plain_step showInt_step truthy_step status_step
    orString_cases orInt_cases
  unfolding default_step
  by (rule refl)

lemma buildQuery_console:
  "snd (buildQuery t p c)
     = (if \<not> valid (validateQuery (fst (buildQuery t p c)))
        then logValidation (fst (buildQuery t p c)) (validateQuery (fst (buildQuery t p c))) c
        else c)"
  unfolding buildQuery_def Let_def fst_conv snd_conv by (rule refl)

lemma buildQuery_eqI:
  assumes "substitutionTable p = substitutionTable p'"
  shows "buildQuery t p c = buildQuery t p' c"
proof (rule prod_eqI)
  show f: "fst (buildQuery t p c) = fst (buildQuery t p' c)"
    by (simp only: buildQuery_fold assms)
  show "snd (buildQuery t p c) = snd (buildQuery t p' c)"
    by (simp only: buildQuery_console f)
qed

subsection \<open>Tokens survive the substitution of other tokens\<close>

lemma splitFirst_sound:
  "splitFirst s pat = Some (pre, post) \<Longrightarrow> s = pre @ pat @ post"
proof (induction s arbitrary: pre)
  case Nil
  then show ?case by (simp split: if_splits)
next
  case (Cons c cs)
  show ?case
  proof (cases "startsWith (c # cs) pat")
    case True
    then have pp: "pre = []" "post = drop (length pat) (c # cs)" using Cons.prems by auto
    from True obtain r where r: "c # cs = pat @ r" by (auto simp: startsWith_iff)
    then have "drop (length pat) (c # cs) = r" by simp
    then show ?thesis using pp r by simp
  next
    case False
    then obtain pre' where "splitFirst cs pat = Some (pre', post)" "pre = c # pre'"
      using Cons.prems by auto
    then show ?thesis using Cons.IH by simp
  qed
qed

lemma jsReplace_shape:
  "jsReplace s pat r = s \<or> (\<exists>pre x post. s = pre @ pat @ post \<and> jsReplace s pat r = pre @ x @ post)"
proof (cases "splitFirst s pat")
  case None
  then show ?thesis by (simp add: jsReplace_def)
next
  case (Some a)
  obtain pre post where a: "a = (pre, post)" by (cases a)
  have "s = pre @ pat @ post" using Some a splitFirst_sound by simp
  moreover have "jsReplace s pat r = pre @ getSubstitution pat pre post r @ post"
    using Some a by (simp add: jsReplace_def)
  ultimately show ?thesis by blast
qed

lemma token_head:
  assumes "isToken A"
  obtains w where "A = CHR ''{'' # CHR ''{'' # w" "w \<noteq> []" "hd w \<noteq> CHR ''{''"
    "length A = length w + 2"
proof -
  from assms obtain name where n: "A = ''{{'' @ name @ ''}}''" "name \<noteq> []"
    "\<forall>c \<in> set name. c \<noteq> CHR ''{'' \<and> c \<noteq> CHR ''}'' \<and> \<not> isSpace c"
    by (auto simp: isToken_def)
  have "hd (name @ ''}}'') \<noteq> CHR ''{''" using n(2,3) by (cases name) auto
  then show ?thesis using n(1) that[of "name @ ''}}''"] by simp
qed

lemma token_tail_no_open:
  assumes "isToken A" "2 \<le> i" "i < length A"
  shows "drop i A \<noteq> [] \<and> hd (drop i A) \<noteq> CHR ''{''"
proof -
  from assms(1) obtain name where n: "A = ''{{'' @ name @ ''}}''"
    "\<forall>c \<in> set name. c \<noteq> CHR ''{'' \<and> c \<noteq> CHR ''}'' \<and> \<not> isSpace c"
    by (auto simp: isToken_def)
  define rest where "rest = name @ ''}}''"
  have A: "A = CHR ''{'' # CHR ''{'' # rest" using n(1) by (simp add: rest_def)
  have i: "i = Suc (Suc (i - 2))" using assms(2) by simp
  have d: "drop i A = drop (i - 2) rest" by (subst i) (simp add: A)
  have "i - 2 < length rest" using assms(2,3) by (simp add: A)
  then have ne: "drop (i - 2) rest \<noteq> []" by simp
  then have "hd (drop (i - 2) rest) \<in> set (drop (i - 2) rest)" by simp
  then have "hd (drop (i - 2) rest) \<in> set rest" using set_drop_subset by fastforce
  moreover have "CHR ''{'' \<notin> set rest" using n(2) by (auto simp: rest_def)
  ultimately have "hd (drop (i - 2) rest) \<noteq> CHR ''{''" by metis
  then show ?thesis using ne d by simp
qed

lemma token_same_start:
  assumes "isToken A" "isToken B" "A @ x = B @ y"
  shows "A = B"
proof -
  from assms(1) obtain n where n: "A = ''{{'' @ n @ ''}}''"
    "\<forall>c \<in> set n. c \<noteq> CHR ''{'' \<and> c \<noteq> CHR ''}'' \<and> \<not> isSpace c"
    by (auto simp: isToken_def)
  from assms(2) obtain m where m: "B = ''{{'' @ m @ ''}}''"
    "\<forall>c \<in> set m. c \<noteq> CHR ''{'' \<and> c \<noteq> CHR ''}'' \<and> \<not> isSpace c"
    by (auto simp: isToken_def)
  have eq: "n @ CHR ''}'' # (CHR ''}'' # x) = m @ CHR ''}'' # (CHR ''}'' # y)"
    using assms(3) n(1) m(1) by simp
  have "takeWhile (\<lambda>c. c \<noteq> CHR ''}'') (n @ CHR ''}'' # (CHR ''}'' # x)) = n"
    using n(2) by (simp add: takeWhile_append2)
  moreover have "takeWhile (\<lambda>c. c \<noteq> CHR ''}'') (m @ CHR ''}'' # (CHR ''}'' # y)) = m"
    using m(2) by (simp add: takeWhile_append2)
  ultimately have "n = m" using eq by simp
  then show ?thesis using n(1) m(1) by simp
qed

lemma token_no_overlap:
  assumes "isToken A" "isToken B" "A \<noteq> B" "i < length B" "drop i (B @ q) = A @ y"
  shows False
proof -
  obtain w where w: "A = CHR ''{'' # CHR ''{'' # w" "w \<noteq> []" "hd w \<noteq> CHR ''{''"
    using assms(1) by (rule token_head)
  obtain v where v: "B = CHR ''{'' # CHR ''{'' # v" "v \<noteq> []" "hd v \<noteq> CHR ''{''"
    using assms(2) by (rule token_head)
  consider "i = 0" | "i = 1" | "2 \<le> i" by linarith
  then show False
  proof cases
    case 1
    then have "A @ y = B @ q" using assms(5) by simp
    then show False using token_same_start[OF assms(1,2)] assms(3) by blast
  next
    case 2
    then have "CHR ''{'' # v @ q = A @ y" using assms(5) v(1) by simp
    then have "hd (v @ q) = CHR ''{''" using w(1) by (cases "v @ q") auto
    then show False using v(2,3) by simp
  next
    case 3
    have d: "drop i (B @ q) = drop i B @ q" using assms(4) by simp
    have "drop i B \<noteq> [] \<and> hd (drop i B) \<noteq> CHR ''{''"
      using token_tail_no_open[OF assms(2) 3 assms(4)] .
    then have "hd (drop i (B @ q)) \<noteq> CHR ''{''" using d by simp
    then show False using assms(5) w(1) by simp
  qed
qed

lemma token_in_parts:
  assumes A: "isToken A" and B: "isToken B" and ne: "A \<noteq> B"
    and s1: "s = x @ A @ y" and s2: "s = pre @ B @ post"
  shows "(\<exists>u v. pre = u @ A @ v) \<or> (\<exists>u v. post = u @ A @ v)"
proof -
  consider "length x + length A \<le> length pre" | "length pre + length B \<le> length x"
    | "length pre \<le> length x" "length x < length pre + length B"
    | "length x < length pre" "length pre < length x + length A"
    by linarith
  then show ?thesis
  proof cases
    case 1
    have "take (length pre) s = pre" using s2 by simp
    moreover have "take (length pre) s = x @ A @ take (length pre - length x - length A) y"
      using 1 s1 by simp
    ultimately show ?thesis by metis
  next
    case 2
    have "drop (length x - (length pre + length B)) post = A @ y"
    proof -
      have "drop (length x - (length pre + length B)) post
          = drop (length x - (length pre + length B)) (drop (length pre + length B) s)"
        using s2 by simp
      also have "\<dots> = drop (length x) s" using 2 by simp
      also have "\<dots> = A @ y" using s1 by simp
      finally show ?thesis .
    qed
    then have "post = take (length x - (length pre + length B)) post @ A @ y"
      by (metis append_take_drop_id)
    then show ?thesis by blast
  next
    case 3
    have "drop (length x - length pre) (B @ post) = drop (length x - length pre) (drop (length pre) s)"
      using s2 by simp
    also have "\<dots> = drop (length x) s" using 3(1) by simp
    also have "\<dots> = A @ y" using s1 by simp
    finally have "drop (length x - length pre) (B @ post) = A @ y" .
    moreover have "length x - length pre < length B" using 3 by linarith
    ultimately show ?thesis using token_no_overlap[OF A B ne] by blast
  next
    case 4
    have "drop (length pre - length x) (A @ y) = drop (length pre - length x) (drop (length x) s)"
      using s1 by simp
    also have "\<dots> = drop (length pre) s" using 4(1) by simp
    also have "\<dots> = B @ post" using s2 by simp
    finally have "drop (length pre - length x) (A @ y) = B @ post" .
    moreover have "length pre - length x < length A" using 4 by linarith
    ultimately show ?thesis using token_no_overlap[OF B A] ne by blast
  qed
qed

lemma token_survives_replace:
  assumes "isToken A" "isToken B" "A \<noteq> B" "jsIncludes s A"
  shows "jsIncludes (jsReplace s B r) A"
proof -
  from assms(4) obtain x y where s1: "s = x @ A @ y" by (auto simp: jsIncludes_iff)
  from jsReplace_shape[of s B r] show ?thesis
  proof
    assume "jsReplace s B r = s"
    then show ?thesis using assms(4) by simp
  next
    assume "\<exists>pre z post. s = pre @ B @ post \<and> jsReplace s B r = pre @ z @ post"
    then obtain pre z post where s2: "s = pre @ B @ post"
      and res: "jsReplace s B r = pre @ z @ post" by blast
    from token_in_parts[OF assms(1-3) s1 s2] show ?thesis
    proof
      assume "\<exists>u v. pre = u @ A @ v"
      then obtain u v where "pre = u @ A @ v" by blast
      then have "jsReplace s B r = u @ A @ (v @ z @ post)" using res by simp
      then show ?thesis unfolding jsIncludes_iff by blast
    next
      assume "\<exists>u v. post = u @ A @ v"
      then obtain u v where "post = u @ A @ v" by blast
      then have "jsReplace s B r = (pre @ z @ u) @ A @ v" using res by simp
      then show ?thesis unfolding jsIncludes_iff by blast
    qed
  qed
qed

lemma token_survives_fold:
  assumes "isToken A" "jsIncludes q A"
    and "\<forall>sub \<in> set subs. snd sub \<noteq> None \<longrightarrow> isToken (fst sub) \<and> fst sub \<noteq> A"
  shows "jsIncludes (foldl applySubstitution q subs) A"
  using assms(2,3)
proof (induction subs arbitrary: q)
  case Nil
  then show ?case by simp
next
  case (Cons sub subs)
  have "jsIncludes (applySubstitution q sub) A"
  proof (cases "snd sub")
    case None
    then show ?thesis using Cons.prems(1) by (simp add: applySubstitution_def)
  next
    case (Some rep)
    then have "isToken (fst sub)" "A \<noteq> fst sub" using Cons.prems(2) by auto
    then show ?thesis
      using Some token_survives_replace[OF assms(1) _ _ Cons.prems(1)]
      by (simp add: applySubstitution_def)
  qed
  then show ?case using Cons.IH Cons.prems(2) by simp
qed

subsection \<open>Tokens survive the clean-up of white space\<close>

lemma collapseSpaces_solid:
  "\<forall>c \<in> set A. \<not> isSpace c \<Longrightarrow>
     collapseSpaces b (A @ y) = A @ collapseSpaces (b \<and> A = []) y"
  by (induction A arbitrary: b) auto

lemma collapseSpaces_before_solid:
  "z \<noteq> [] \<Longrightarrow> \<not> isSpace (hd z) \<Longrightarrow>
     collapseSpaces b (x @ z) = collapseSpaces b x @ collapseSpaces False z"
proof (induction x arbitrary: b)
  case Nil
  then show ?case by (cases z) auto
next
  case (Cons c cs)
  then show ?case by simp
qed

lemma token_solid:
  assumes "isToken A"
  shows "A \<noteq> []" "\<forall>c \<in> set A. \<not> isSpace c"
proof -
  from assms obtain name where n: "A = ''{{'' @ name @ ''}}''"
    "\<forall>c \<in> set name. c \<noteq> CHR ''{'' \<and> c \<noteq> CHR ''}'' \<and> \<not> isSpace c"
    by (auto simp: isToken_def)
  show "A \<noteq> []" using n(1) by simp
  have "\<not> isSpace (CHR ''{'')" "\<not> isSpace (CHR ''}'')" by (simp_all add: isSpace_def)
  then show "\<forall>c \<in> set A. \<not> isSpace c" using n by auto
qed

lemma solid_survives_collapse:
  assumes "A \<noteq> []" "\<forall>c \<in> set A. \<not> isSpace c" "jsIncludes s A"
  shows "jsIncludes (collapseSpaces b s) A"
proof -
  from assms(3) obtain x y where "s = x @ A @ y" by (auto simp: jsIncludes_iff)
  moreover have "\<not> isSpace (hd (A @ y))" using assms(1,2) by (cases A) auto
  ultimately have "collapseSpaces b s = collapseSpaces b x @ collapseSpaces False (A @ y)"
    using assms(1) collapseSpaces_before_solid[of "A @ y" b x] by simp
  also have "\<dots> = collapseSpaces b x @ A @ collapseSpaces False y"
    using assms(1,2) by (simp add: collapseSpaces_solid)
  finally show ?thesis unfolding jsIncludes_iff by blast
qed

lemma solid_survives_dropWhile:
  assumes "A \<noteq> []" "\<forall>c \<in> set A. \<not> isSpace c" "jsIncludes s A"
  shows "jsIncludes (dropWhile isSpace s) A"
proof -
  from assms(3) obtain x y where s: "s = x @ A @ y" by (auto simp: jsIncludes_iff)
  have "dropWhile isSpace (A @ y) = A @ y" using assms(1,2) by (cases A) auto
  then have "dropWhile isSpace s = (if \<forall>c \<in> set x. isSpace c then [] else dropWhile isSpace x) @ A @ y"
    unfolding s by (simp add: dropWhile_append)
  then show ?thesis unfolding jsIncludes_iff by blast
qed

lemma jsIncludes_rev: "jsIncludes (rev s) (rev A) \<longleftrightarrow> jsIncludes s A"
proof -
  have "(\<exists>p r. rev s = p @ rev A @ r) \<longleftrightarrow> (\<exists>p r. s = p @ A @ r)"
  proof
    assume "\<exists>p r. rev s = p @ rev A @ r"
    then obtain p r where "rev s = p @ rev A @ r" by blast
    then have "rev (rev s) = rev (p @ rev A @ r)" by simp
    then have "s = rev r @ A @ rev p" by simp
    then show "\<exists>p r. s = p @ A @ r" by blast
  next
    assume "\<exists>p r. s = p @ A @ r"
    then obtain p r where "s = p @ A @ r" by blast
    then have "rev s = rev r @ rev A @ rev p" by simp
    then show "\<exists>p r. rev s = p @ rev A @ r" by blast
  qed
  then show ?thesis by (simp add: jsIncludes_iff)
qed

lemma solid_survives_trim:
  assumes "A \<noteq> []" "\<forall>c \<in> set A. \<not> isSpace c" "jsIncludes s A"
  shows "jsIncludes (trim s) A"
proof -
  have 1: "jsIncludes (dropWhile isSpace s) A"
    using assms by (rule solid_survives_dropWhile)
  then have "jsIncludes (rev (dropWhile isSpace s)) (rev A)" by (simp add: jsIncludes_rev)
  moreover have "rev A \<noteq> []" "\<forall>c \<in> set (rev A). \<not> isSpace c" using assms(1,2) by auto
  ultimately have "jsIncludes (dropWhile isSpace (rev (dropWhile isSpace s))) (rev A)"
    using solid_survives_dropWhile by blast
  then have "jsIncludes (rev (dropWhile isSpace (rev (dropWhile isSpace s)))) (rev (rev A))"
    by (simp only: jsIncludes_rev)
  then show ?thesis by (simp add: trim_def)
qed

lemma token_survives_cleanup:
  "isToken A \<Longrightarrow> jsIncludes s A \<Longrightarrow> jsIncludes (replaceWhitespaceRuns (trim s)) A"
  unfolding replaceWhitespaceRuns_def
  by (intro solid_survives_collapse solid_survives_trim token_solid)

subsection \<open>The tokens of the table\<close>

lemma isTokenI:
  "name \<noteq> [] \<Longrightarrow> list_all (\<lambda>c. c \<noteq> CHR ''{'' \<and> c \<noteq> CHR ''}'' \<and> \<not> isSpace c) name
     \<Longrightarrow> isToken (''{{'' @ name @ ''}}'')"
  unfolding isToken_def list_all_iff by blast

lemma table_tokens: "sub \<in> set (substitutionTable p) \<Longrightarrow> isToken (fst sub)"
proof -
  have tok: "isToken ''{{METRICS}}''" "isToken ''{{START_DATE}}''" "isToken ''{{END_DATE}}''"
    "isToken ''{{FILTERS}}''" "isToken ''{{ORDER_BY}}''" "isToken ''{{LIMIT}}''"
    "isToken ''{{MIN_IMPRESSIONS}}''" "isToken ''{{MIN_COST_MICROS}}''"
    "isToken ''{{MAX_CONVERSIONS}}''" "isToken ''{{RESOURCE_ID}}''" "isToken ''{{DATE}}''"
    "isToken ''{{MAX_QUALITY_SCORE}}''" "isToken ''{{SEGMENT_FIELD}}''"
    "isToken ''{{STATUS_FILTER}}''" "isToken ''{{GEO_LEVEL}}''"
    using isTokenI[of "''METRICS''"] isTokenI[of "''START_DATE''"] isTokenI[of "''END_DATE''"]
      isTokenI[of "''FILTERS''"] isTokenI[of "''ORDER_BY''"] isTokenI[of "''LIMIT''"]
      isTokenI[of "''MIN_IMPRESSIONS''"] isTokenI[of "''MIN_COST_MICROS''"]
      isTokenI[of "''MAX_CONVERSIONS''"] isTokenI[of "''RESOURCE_ID''"] isTokenI[of "''DATE''"]
      isTokenI[of "''MAX_QUALITY_SCORE''"] isTokenI[of "''SEGMENT_FIELD''"]
      isTokenI[of "''STATUS_FILTER''"] isTokenI[of "''GEO_LEVEL''"]
    by (simp_all add: isSpace_def)
  assume "sub \<in> set (substitutionTable p)"
  then have "fst sub \<in> set (map fst (substitutionTable p))" by simp
  then show ?thesis
    unfolding substitutionTable_def list.map fst_conv using tok by auto
qed

lemma token_left_alone:
  assumes "(A, None) \<in> set (substitutionTable p)" "distinct (map fst (substitutionTable p))"
    "jsIncludes t A"
  shows "jsIncludes (fst (buildQuery t p c)) A"
proof -
  have A: "isToken A" using table_tokens[OF assms(1)] by simp
  have "\<forall>sub \<in> set (substitutionTable p). snd sub \<noteq> None \<longrightarrow> isToken (fst sub) \<and> fst sub \<noteq> A"
  proof (intro ballI impI conjI)
    fix sub assume sub: "sub \<in> set (substitutionTable p)" "snd sub \<noteq> None"
    show "isToken (fst sub)" using sub(1) by (rule table_tokens)
    show "fst sub \<noteq> A"
    proof
      assume "fst sub = A"
      then have "(A, snd sub) \<in> set (substitutionTable p)" using sub(1) by (cases sub) simp
      then have "snd sub = None"
        using assms(1,2) by (meson eq_key_imp_eq_value)
      then show False using sub(2) by simp
    qed
  qed
  then have "jsIncludes (foldl applySubstitution t (substitutionTable p)) A"
    using token_survives_fold[OF A assms(3)] by blast
  then show ?thesis
    unfolding buildQuery_fold using A by (rule token_survives_cleanup[rotated])
qed

lemma table_distinct: "distinct (map fst (substitutionTable p))"
  by (simp add: substitutionTable_def)

subsection \<open>Replacement texts without a dollar sign are inserted as they are\<close>

lemma getSubstitution_plain:
  "CHR ''$'' \<notin> set r \<Longrightarrow> getSubstitution m pre post r = r"
  by (induction m pre post r rule: getSubstitution.induct) auto

lemma showInt_no_dollar: "CHR ''$'' \<notin> set (showInt n)"
proof -
  have "CHR ''$'' \<notin> set digitChars" by (simp add: digitChars_def)
  then have "CHR ''$'' \<notin> set (showNat k)" for k using showNat_digits by blast
  then show ?thesis by (simp add: showInt_def)
qed

lemma jsReplace_number:
  "splitFirst q tok = Some (pre, post) \<Longrightarrow> jsReplace q tok (showInt n) = pre @ showInt n @ post"
  by (simp add: jsReplace_def getSubstitution_plain showInt_no_dollar)

subsection \<open>The worked example of the template tests\<close>

lemma campaign_performance_example:
  "replaceWhitespaceRuns (trim (foldl applySubstitution CAMPAIGN_PERFORMANCE
      (substitutionTable (emptyParams\<lparr>metrics := Some [''cost_micros'', ''clicks''],
         dates := Some \<lparr>start = ''2024-01-01'', end' = ''2024-01-31''\<rparr>, filters := Some '''',
         orderBy := Some ''metrics.cost_micros'', BuildParams.limit := Some 50\<rparr>))))
   = ''SELECT campaign.id, campaign.name, campaign.status, campaign.advertising_channel_type, ''
     @ ''metrics.cost_micros, metrics.clicks FROM campaign WHERE segments.date BETWEEN ''
     @ [CHR 0x27] @ ''2024-01-01'' @ [CHR 0x27] @ '' AND '' @ [CHR 0x27] @ ''2024-01-31''
     @ [CHR 0x27] @ '' ORDER BY metrics.cost_micros DESC LIMIT 50''"
  by code_simp

section \<open>Facts about the query tool\<close>

lemma canonicalize_LIMIT: "canonicalize ''LIMIT'' = ''LIMIT''"
  by (simp add: canonicalize_def toUpperChar_def upperChars_def lowerChars_def)

lemma toUpperCase_LIMIT: "toUpperCase ''LIMIT'' = ''LIMIT''"
  by (simp add: toUpperCase_def toUpperChar_def upperChars_def lowerChars_def)

lemma canonicalize_toUpperCase: "canonicalize s = toUpperCase s"
  by (simp add: canonicalize_def toUpperCase_def)

lemma digit_not_space: "isDigit c \<Longrightarrow> \<not> isSpace c"
  by (auto simp: isDigit_def isSpace_def digitChars_def)

lemma matchLimitAt_sound:
  assumes "matchLimitAt s = Some (n, ds)"
  shows "\<exists>kw ws post. s = kw @ ws @ ds @ post \<and> toUpperCase kw = ''LIMIT''
           \<and> ws \<noteq> [] \<and> (\<forall>c \<in> set ws. isSpace c) \<and> ds \<noteq> [] \<and> (\<forall>c \<in> set ds. isDigit c)
           \<and> n = length (kw @ ws @ ds)"
proof -
  define ws where "ws = takeWhile isSpace (drop 5 s)"
  define rest where "rest = dropWhile isSpace (drop 5 s)"
  define post where "post = dropWhile isDigit rest"
  from assms have kw: "canonicalize (take 5 s) = canonicalize ''LIMIT''" and ws: "ws \<noteq> []"
    and ds: "ds = takeWhile isDigit rest" "ds \<noteq> []" and n: "n = 5 + length ws + length ds"
    by (auto simp: matchLimitAt_def Let_def ws_def rest_def split: if_splits)
  have up: "toUpperCase (take 5 s) = ''LIMIT''"
    using kw by (simp add: canonicalize_toUpperCase toUpperCase_LIMIT)
  then have "length (toUpperCase (take 5 s)) = 5" by simp
  then have len: "length (take 5 s) = 5" by (simp add: toUpperCase_def)
  have "s = take 5 s @ drop 5 s" by simp
  also have "drop 5 s = ws @ rest" by (simp add: ws_def rest_def)
  also have "rest = ds @ post" by (simp add: ds(1) post_def)
  finally have "s = take 5 s @ ws @ ds @ post" .
  moreover have "\<forall>c \<in> set ws. isSpace c" unfolding ws_def by (auto dest: set_takeWhileD)
  moreover have "\<forall>c \<in> set ds. isDigit c" unfolding ds(1) by (auto dest: set_takeWhileD)
  moreover have "n = length (take 5 s @ ws @ ds)" using n len by simp
  ultimately show ?thesis using up ws ds(2) by blast
qed

lemma matchLimitAt_complete:
  assumes "toUpperCase kw = ''LIMIT''" "ws \<noteq> []" "\<forall>c \<in> set ws. isSpace c"
    "ds \<noteq> []" "\<forall>c \<in> set ds. isDigit c"
  shows "matchLimitAt (kw @ ws @ ds @ post) \<noteq> None"
proof -
  have "length (toUpperCase kw) = 5" using assms(1) by simp
  then have len: "length kw = 5" by (simp add: toUpperCase_def)
  have t: "take 5 (kw @ ws @ ds @ post) = kw" and d: "drop 5 (kw @ ws @ ds @ post) = ws @ ds @ post"
    using len by simp_all
  have hd_ds: "\<not> isSpace (hd ds)" using assms(4,5) digit_not_space by (cases ds) auto
  have sp: "takeWhile isSpace (ws @ ds @ post) \<noteq> []"
    using assms(2,3) by (cases ws) auto
  have "dropWhile isSpace (ws @ ds @ post) = dropWhile isSpace (ds @ post)"
    using assms(3) by (simp add: dropWhile_append)
  also have "\<dots> = ds @ post" using hd_ds assms(4) by (cases ds) auto
  finally have dw: "dropWhile isSpace (ws @ ds @ post) = ds @ post" .
  have dg: "takeWhile isDigit (ds @ post) \<noteq> []" using assms(4,5) by (cases ds) auto
  show ?thesis
    unfolding matchLimitAt_def Let_def t d dw
    using assms(1) sp dg by (simp add: canonicalize_toUpperCase toUpperCase_LIMIT)
qed

lemma findLimit_sound:
  "findLimit b s = Some (pre, ds, post) \<Longrightarrow>
     \<exists>kw ws. s = pre @ kw @ ws @ ds @ post \<and> toUpperCase kw = ''LIMIT''
       \<and> ws \<noteq> [] \<and> (\<forall>c \<in> set ws. isSpace c) \<and> ds \<noteq> [] \<and> (\<forall>c \<in> set ds. isDigit c)
       \<and> (if pre = [] then \<not> b else \<not> isWordChar (last pre))"
proof (induction s arbitrary: b pre)
  case Nil
  then show ?case by simp
next
  case (Cons c cs)
  show ?case
  proof (cases "if b then None else matchLimitAt (c # cs)")
    case (Some a)
    obtain n ds' where a: "a = (n, ds')" by (cases a)
    from Some a have nb: "\<not> b" and m: "matchLimitAt (c # cs) = Some (n, ds')"
      by (auto split: if_splits)
    from Cons.prems Some a have res: "pre = []" "ds = ds'" "post = drop n (c # cs)" by auto
    from matchLimitAt_sound[OF m] obtain kw ws post' where
      k: "c # cs = kw @ ws @ ds' @ post'" "toUpperCase kw = ''LIMIT''" "ws \<noteq> []"
        "\<forall>c \<in> set ws. isSpace c" "ds' \<noteq> []" "\<forall>c \<in> set ds'. isDigit c"
        "n = length (kw @ ws @ ds')"
      by blast
    have "drop n (c # cs) = post'"
    proof -
      define pfx where "pfx = kw @ ws @ ds'"
      have "c # cs = pfx @ post'" "n = length pfx" using k(1,7) by (simp_all add: pfx_def)
      then show ?thesis by simp
    qed
    then have "c # cs = pre @ kw @ ws @ ds @ post" using k(1) res by simp
    then show ?thesis using k(2-6) res nb by auto
  next
    case None
    then obtain pre' where rec: "findLimit (isWordChar c) cs = Some (pre', ds, post)"
      and pre: "pre = c # pre'"
      using Cons.prems by auto
    from Cons.IH[OF rec] obtain kw ws where
      k: "cs = pre' @ kw @ ws @ ds @ post" "toUpperCase kw = ''LIMIT''" "ws \<noteq> []"
        "\<forall>c \<in> set ws. isSpace c" "ds \<noteq> []" "\<forall>c \<in> set ds. isDigit c"
        "if pre' = [] then \<not> isWordChar c else \<not> isWordChar (last pre')"
      by blast
    have "\<not> isWordChar (last pre)" using k(7) pre by (cases "pre' = []") auto
    moreover have "c # cs = pre @ kw @ ws @ ds @ post" using k(1) pre by simp
    ultimately show ?thesis using k(2-6) pre by auto
  qed
qed

lemma findLimit_complete:
  "matchLimitAt rest \<noteq> None \<Longrightarrow> (if pre = [] then \<not> b else \<not> isWordChar (last pre)) \<Longrightarrow>
     findLimit b (pre @ rest) \<noteq> None"
proof (induction pre arbitrary: b)
  case Nil
  then have nb: "\<not> b" by simp
  from Nil(1) have "rest \<noteq> []" by (auto simp: matchLimitAt_def canonicalize_LIMIT canonicalize_def)
  then obtain c cs where r: "rest = c # cs" by (cases rest) auto
  from Nil(1) r obtain a where "matchLimitAt (c # cs) = Some a" by auto
  then show ?case using nb r by (cases a) simp
next
  case (Cons c pre)
  have inv: "if pre = [] then \<not> isWordChar c else \<not> isWordChar (last pre)"
    using Cons.prems(2) by (cases "pre = []") auto
  have rec: "findLimit (isWordChar c) (pre @ rest) \<noteq> None"
    using Cons.IH[OF Cons.prems(1) inv] .
  show ?case
  proof (cases "if b then None else matchLimitAt (c # pre @ rest)")
    case None
    then show ?thesis using rec by auto
  next
    case (Some a)
    then show ?thesis by (cases a) simp
  qed
qed

lemma findLimit_iff: "findLimit False q \<noteq> None \<longleftrightarrow> hasLimitClause q"
proof
  assume "findLimit False q \<noteq> None"
  then obtain pre ds post where "findLimit False q = Some (pre, ds, post)" by auto
  from findLimit_sound[OF this] show "hasLimitClause q"
    unfolding hasLimitClause_def by (metis (full_types))
next
  assume "hasLimitClause q"
  then obtain pre kw ws ds post where h: "q = pre @ kw @ ws @ ds @ post"
    "toUpperCase kw = ''LIMIT''" "ws \<noteq> []" "\<forall>c \<in> set ws. isSpace c"
    "ds \<noteq> []" "\<forall>c \<in> set ds. isDigit c" "pre = [] \<or> \<not> isWordChar (last pre)"
    unfolding hasLimitClause_def by blast
  have "matchLimitAt (kw @ ws @ ds @ post) \<noteq> None"
    using h(2-6) by (rule matchLimitAt_complete)
  moreover have "if pre = [] then \<not> False else \<not> isWordChar (last pre)" using h(7) by auto
  ultimately show "findLimit False q \<noteq> None"
    unfolding h(1) by (rule findLimit_complete)
qed

section \<open>Facts about row flattening\<close>

lemma leaves_path_nonempty: "(path, v) \<in> set (leaves es) \<Longrightarrow> path \<noteq> []"
  by (induction es arbitrary: path v rule: leaves.induct) auto

lemma dottedName_Cons:
  "dottedName prefix (key # path)
     = dottedName (if prefix \<noteq> [] then prefix @ ''.'' @ key else key) path"
  by (simp add: dottedName_def)

lemma leafWrites_Cons:
  "path \<noteq> [] \<Longrightarrow>
     leafWrites prefix (key # path, v)
       = leafWrites (if prefix \<noteq> [] then prefix @ ''.'' @ key else key) (path, v)"
  by (cases v) (simp_all add: leafWrites_def dottedName_Cons)

lemma rowWrites_Nil: "rowWrites [] prefix = []"
  by (simp add: rowWrites_def)

lemma rowWrites_object:
  "rowWrites ((key, RObj nested) # entries) prefix
     = rowWrites nested (if prefix \<noteq> [] then prefix @ ''.'' @ key else key)
       @ rowWrites entries prefix"
proof -
  define newKey where "newKey = (if prefix \<noteq> [] then prefix @ ''.'' @ key else key)"
  have "leafWrites prefix (key # path, v) = leafWrites newKey (path, v)"
    if "(path, v) \<in> set (leaves nested)" for path v
    using leaves_path_nonempty[OF that] by (simp add: leafWrites_Cons newKey_def)
  then have "map (leafWrites prefix \<circ> (\<lambda>(path, v). (key # path, v))) (leaves nested)
      = map (leafWrites newKey) (leaves nested)"
    by (intro map_cong) auto
  then have "concat (map (leafWrites prefix) (map (\<lambda>(path, v). (key # path, v)) (leaves nested)))
      = concat (map (leafWrites newKey) (leaves nested))"
    by (simp only: map_map)
  then show ?thesis
    unfolding newKey_def[symmetric] rowWrites_def leaves.simps map_append concat_append
    by (rule arg_cong2[where f = "(@)", OF _ refl])
qed

lemma rowWrites_leaf:
  "\<forall>nested. v \<noteq> RObj nested \<Longrightarrow>
     rowWrites ((key, v) # entries) prefix
       = leafWrites prefix ([key], v) @ rowWrites entries prefix"
  by (cases v) (simp_all add: rowWrites_def)

lemma map_add_writes:
  "m ++ map_of (rev (a @ b)) = (m ++ map_of (rev a)) ++ map_of (rev b)"
  by (simp add: map_of_append)

lemma flattenInto_writes:
  "flattenInto result entries prefix = result ++ map_of (rev (rowWrites entries prefix))"
proof (induction result entries prefix rule: flattenInto.induct)
  case (1 result prefix)
  then show ?case by (simp add: rowWrites_Nil)
next
  case (2 result key v entries prefix)
  define newKey where "newKey = (if prefix \<noteq> [] then prefix @ ''.'' @ key else key)"
  define written where "written =
            (case v of
               RNull \<Rightarrow> result(newKey \<mapsto> RNull)
             | RUndefined \<Rightarrow> result(newKey \<mapsto> RNull)
             | RObj nested \<Rightarrow> result ++ flattenInto Map.empty nested newKey
             | RArr items \<Rightarrow> result(newKey \<mapsto> v)
             | RNum n \<Rightarrow>
                 (if endsWith key ''_micros''
                  then (let baseKey = jsReplace newKey ''_micros'' ''''
                        in (result(baseKey \<mapsto> RNum (n / 1000000)))(newKey \<mapsto> v))
                  else result(newKey \<mapsto> v))
             | _ \<Rightarrow> result(newKey \<mapsto> v))"
  have step: "flattenInto result ((key, v) # entries) prefix = flattenInto written entries prefix"
    by (simp only: flattenInto.simps Let_def written_def newKey_def)
  have tail: "flattenInto written entries prefix
      = written ++ map_of (rev (rowWrites entries prefix))"
    using 2(2)[OF newKey_def written_def] .
  have head: "written = result ++ map_of (rev (if \<exists>nested. v = RObj nested
        then rowWrites (case v of RObj nested \<Rightarrow> nested) newKey
        else leafWrites prefix ([key], v)))"
  proof (cases v)
    case (RObj nested)
    have "flattenInto Map.empty nested newKey = map_of (rev (rowWrites nested newKey))"
      using 2(1)[OF newKey_def RObj] by simp
    then show ?thesis by (simp add: written_def RObj)
  next
    case (RNum n)
    then show ?thesis
      by (simp add: written_def leafWrites_def dottedName_def newKey_def Let_def)
  qed (simp_all add: written_def leafWrites_def dottedName_def newKey_def)
  have all: "rowWrites ((key, v) # entries) prefix
      = (if \<exists>nested. v = RObj nested
        then rowWrites (case v of RObj nested \<Rightarrow> nested) newKey
        else leafWrites prefix ([key], v)) @ rowWrites entries prefix"
  proof (cases "\<exists>nested. v = RObj nested")
    case True
    then obtain nested where "v = RObj nested" by blast
    then show ?thesis by (simp add: rowWrites_object newKey_def)
  next
    case False
    then show ?thesis by (simp add: rowWrites_leaf)
  qed
  have "flattenInto result ((key, v) # entries) prefix
      = written ++ map_of (rev (rowWrites entries prefix))"
    using step tail by (rule trans)
  then show ?case unfolding head all by (simp add: map_of_append)
qed

lemma flattenRow_writes: "flattenRow row prefix = map_of (rev (rowWrites row prefix))"
  by (simp add: flattenRow_def flattenInto_writes)

lemma endsWith_iff: "endsWith s k \<longleftrightarrow> (\<exists>p. s = p @ k)"
proof -
  have "(\<exists>r. rev s = rev k @ r) \<longleftrightarrow> (\<exists>p. s = p @ k)"
  proof
    assume "\<exists>r. rev s = rev k @ r"
    then obtain r where "rev s = rev k @ r" by blast
    then have "rev (rev s) = rev (rev k @ r)" by simp
    then have "s = rev r @ k" by simp
    then show "\<exists>p. s = p @ k" by blast
  next
    assume "\<exists>p. s = p @ k"
    then obtain p where "s = p @ k" by blast
    then have "rev s = rev k @ rev p" by simp
    then show "\<exists>r. rev s = rev k @ r" by blast
  qed
  then show ?thesis by (simp add: endsWith_def startsWith_iff)
qed

lemma dottedName_from:
  "acc \<noteq> [] \<Longrightarrow> \<forall>k \<in> set path. k \<noteq> [] \<Longrightarrow>
     dottedName acc path = (if path = [] then acc else acc @ ''.'' @ joinWith ''.'' path)"
proof (induction path arbitrary: acc)
  case Nil
  then show ?case by (simp add: dottedName_def)
next
  case (Cons k path)
  have "dottedName acc (k # path) = dottedName (acc @ ''.'' @ k) path"
    using Cons.prems(1) by (simp add: dottedName_Cons)
  also have "\<dots> = (if path = [] then acc @ ''.'' @ k
                    else (acc @ ''.'' @ k) @ ''.'' @ joinWith ''.'' path)"
    using Cons.IH[of "acc @ ''.'' @ k"] Cons.prems(2) by simp
  also have "\<dots> = acc @ ''.'' @ joinWith ''.'' (k # path)"
    by (cases path) simp_all
  finally show ?case by simp
qed

lemma dottedName_join:
  "path \<noteq> [] \<Longrightarrow> \<forall>k \<in> set path. k \<noteq> [] \<Longrightarrow> dottedName [] path = joinWith ''.'' path"
proof (cases path)
  case Nil
  assume "path \<noteq> []"
  with Nil show ?thesis by simp
next
  case (Cons k rest)
  assume ne: "\<forall>k \<in> set path. k \<noteq> []"
  have "dottedName [] (k # rest) = dottedName k rest" by (simp add: dottedName_Cons)
  also have "\<dots> = (if rest = [] then k else k @ ''.'' @ joinWith ''.'' rest)"
    using dottedName_from[of k rest] ne Cons by simp
  also have "\<dots> = joinWith ''.'' (k # rest)" by (cases rest) simp_all
  finally show ?thesis using Cons by simp
qed

lemma startsWith_early:
  assumes "startsWith (x @ pat @ post) pat" "x \<noteq> []"
  shows "startsWith (x @ butlast pat) pat"
proof (cases "pat = []")
  case True
  then show ?thesis by simp
next
  case False
  from assms(1) obtain r where r: "x @ pat @ post = pat @ r" by (auto simp: startsWith_iff)
  define n where "n = length pat - length x"
  have n: "n < length pat" using False assms(2) by (simp add: n_def)
  have "pat = take (length pat) (x @ pat @ post)" using r by simp
  also have "\<dots> = take (length pat) x @ take n (pat @ post)" by (simp add: n_def)
  also have "take n (pat @ post) = take n pat" using n by simp
  also have "take n pat = take n (butlast pat)" using n by (simp add: take_butlast)
  also have "take (length pat) x @ take n (butlast pat) = take (length pat) (x @ butlast pat)"
    by (simp add: n_def)
  finally have "pat = take (length pat) (x @ butlast pat)" .
  then have "x @ butlast pat = pat @ drop (length pat) (x @ butlast pat)"
    by (metis append_take_drop_id)
  then show ?thesis unfolding startsWith_iff by blast
qed

lemma splitFirst_first:
  assumes "pat \<noteq> []" "\<not> jsIncludes (pre @ butlast pat) pat"
  shows "splitFirst (pre @ pat @ post) pat = Some (pre, post)"
  using assms(2)
proof (induction pre)
  case Nil
  obtain c cs where p: "pat = c # cs" using assms(1) by (cases pat) auto
  have "startsWith (pat @ post) pat" by (simp add: startsWith_iff)
  then show ?case by (simp add: p)
next
  case (Cons c pre)
  have no: "\<not> startsWith ((c # pre) @ pat @ post) pat"
  proof
    assume "startsWith ((c # pre) @ pat @ post) pat"
    then have "startsWith ((c # pre) @ butlast pat) pat" by (rule startsWith_early) simp
    then have "jsIncludes ((c # pre) @ butlast pat) pat" by simp
    then show False using Cons.prems by simp
  qed
  have "\<not> jsIncludes (pre @ butlast pat) pat" using Cons.prems by simp
  then have "splitFirst (pre @ pat @ post) pat = Some (pre, post)" by (rule Cons.IH)
  then show ?case using no by simp
qed

lemma remove_suffix_micros:
  assumes "\<not> jsIncludes (name @ ''_micro'') ''_micros''"
  shows "jsReplace (name @ ''_micros'') ''_micros'' '''' = name"
proof -
  have "splitFirst (name @ ''_micros'' @ []) ''_micros'' = Some (name, [])"
    using assms by (intro splitFirst_first) simp_all
  then show ?thesis by (simp add: jsReplace_def)
qed

lemma rowWrites_leaf_mem:
  "leaf \<in> set (leaves row) \<Longrightarrow> w \<in> set (leafWrites prefix leaf) \<Longrightarrow> w \<in> set (rowWrites row prefix)"
  by (auto simp: rowWrites_def)

lemma flattenRow_distinct_lookup:
  assumes "distinct (map fst (rowWrites row prefix))" "(k, v) \<in> set (rowWrites row prefix)"
  shows "flattenRow row prefix k = Some v"
proof -
  have "distinct (map fst (rev (rowWrites row prefix)))" using assms(1) by (simp add: rev_map[symmetric])
  moreover have "(k, v) \<in> set (rev (rowWrites row prefix))" using assms(2) by simp
  ultimately show ?thesis unfolding flattenRow_writes by (rule map_of_is_SomeI)
qed

section \<open>Facts about custom date ranges\<close>

subsection \<open>Numerals read back\<close>

lemma digitValue_nth: "k < 10 \<Longrightarrow> digitValue (digitChars ! k) = k"
proof -
  assume k: "k < 10"
  have "takeWhile (\<lambda>d. d \<noteq> digitChars ! k) digitChars = take k digitChars"
    using k by (intro takeWhile_eq_take_P_nth)
      (auto simp: digitChars_facts nth_eq_iff_index_eq)
  then show ?thesis using k by (simp add: digitValue_def digitChars_facts)
qed

lemma parseDigits_snoc:
  "parseDigits (s @ [c]) = parseDigits s * 10 + int (digitValue c)"
  by (simp add: parseDigits_def)

lemma parseDigits_showNat: "parseDigits (showNat n) = int n"
proof (induction n rule: showNat.induct)
  case (1 n)
  show ?case
  proof (cases "n < 10")
    case True
    then show ?thesis
      by (subst showNat.simps) (simp add: parseDigits_def digitValue_nth)
  next
    case False
    have "parseDigits (showNat n) = parseDigits (showNat (n div 10) @ [digitChars ! (n mod 10)])"
      using False by (subst showNat.simps) simp
    also have "\<dots> = int (n div 10) * 10 + int (n mod 10)"
      using 1[OF False] by (simp add: parseDigits_snoc digitValue_nth)
    also have "\<dots> = int n" by presburger
    finally show ?thesis .
  qed
qed

lemma parseDigits_zeros: "parseDigits (replicate k (CHR ''0'') @ s) = parseDigits s"
proof -
  have z: "digitValue (CHR ''0'') = 0" by (simp add: digitValue_def digitChars_def)
  have "foldl (\<lambda>acc c. acc * 10 + digitValue c) 0 (replicate k (CHR ''0'')) = 0"
    by (induction k) (simp_all add: z)
  then show ?thesis by (simp add: parseDigits_def)
qed

lemma showNat_isDigit: "list_all isDigit (showNat n)"
  using showNat_digits[of n] by (auto simp: list_all_iff isDigit_def)

lemma zero_isDigit: "isDigit (CHR ''0'')"
  by (simp add: isDigit_def digitChars_def)

lemma trim_solid: "\<forall>c \<in> set s. \<not> isSpace c \<Longrightarrow> trim s = s"
proof -
  assume a: "\<forall>c \<in> set s. \<not> isSpace c"
  have d: "dropWhile isSpace t = t" if "\<forall>c \<in> set t. \<not> isSpace c" for t
    using that by (cases t) auto
  have "dropWhile isSpace (rev (dropWhile isSpace s)) = rev s"
    using a by (simp add: d)
  then show ?thesis by (simp add: trim_def)
qed

lemma jsNumber_padded:
  "jsNumber (padStart (showNat n) k (CHR ''0'')) = Some (int n)"
proof -
  define s where "s = padStart (showNat n) k (CHR ''0'')"
  have dig: "list_all isDigit s"
    using showNat_isDigit[of n] zero_isDigit by (auto simp: s_def padStart_def list_all_iff)
  then have "\<forall>c \<in> set s. \<not> isSpace c" using digit_not_space by (auto simp: list_all_iff)
  then have t: "trim s = s" by (rule trim_solid)
  have ne: "s \<noteq> []" using showNat_nonempty by (simp add: s_def padStart_def)
  have "parseDigits s = int n" by (simp add: s_def padStart_def parseDigits_zeros parseDigits_showNat)
  then show ?thesis using t ne dig by (simp add: jsNumber_def s_def[symmetric])
qed

subsection \<open>Splitting at the dashes\<close>

lemma splitOn_nonempty: "splitOn sep s \<noteq> []"
  by (induction s) (auto split: list.splits)

lemma splitOn_solid: "sep \<notin> set a \<Longrightarrow> splitOn sep a = [a]"
  by (induction a) auto

lemma splitOn_first: "sep \<notin> set a \<Longrightarrow> splitOn sep (a @ sep # rest) = a # splitOn sep rest"
proof (induction a)
  case Nil
  then show ?case by simp
next
  case (Cons c a)
  then show ?case using splitOn_nonempty[of sep rest] by (auto split: list.splits)
qed

lemma splitOn_three:
  "sep \<notin> set a \<Longrightarrow> sep \<notin> set b \<Longrightarrow> sep \<notin> set c \<Longrightarrow>
     splitOn sep (a @ [sep] @ b @ [sep] @ c) = [a, b, c]"
  by (simp add: splitOn_first splitOn_solid)

lemma padded_no_dash: "CHR ''-'' \<notin> set (padStart (showNat n) k (CHR ''0''))"
proof -
  have "CHR ''-'' \<notin> set digitChars" by (simp add: digitChars_def)
  then have "CHR ''-'' \<notin> set (showNat n)" using showNat_digits by blast
  then show ?thesis by (simp add: padStart_def)
qed

subsection \<open>Valid calendar dates are kept\<close>

lemma rollDays_valid: "1 \<le> d \<Longrightarrow> d \<le> daysInMonth y m \<Longrightarrow> rollDays y m d = LocalDate y m d"
  by (subst rollDays.simps) simp

lemma newDate_valid:
  assumes "validCalendarDate y m d" "\<not> (0 \<le> y \<and> y \<le> 99)"
  shows "newDate (Some y) (Some (m - 1)) (Some d) = LocalDate y (m - 1) d"
proof -
  have m: "0 \<le> m - 1" "m - 1 < 12" using assms(1) by (simp_all add: validCalendarDate_def)
  then have dm: "(m - 1) div 12 = 0" "(m - 1) mod 12 = m - 1" by simp_all
  have yr: "(if 0 \<le> y \<and> y \<le> 99 then 1900 + y else y) = y" using assms(2) by simp
  have "rollDays y (m - 1) d = LocalDate y (m - 1) d"
    using assms(1) by (intro rollDays_valid) (simp_all add: validCalendarDate_def)
  then show ?thesis
    using assms(2) unfolding newDate_def makeDate_def by (auto simp: dm)
qed

lemma showNat_long: "1000 \<le> n \<Longrightarrow> 4 \<le> length (showNat n)"
proof -
  assume n: "1000 \<le> n"
  have "1000 div 10 \<le> n div 10" using n by (rule div_le_mono)
  then have h: "100 \<le> n div 10" by simp
  then have "100 div 10 \<le> n div 10 div 10" by (rule div_le_mono)
  then have t: "10 \<le> n div 10 div 10" by simp
  have big: "\<not> n < 10" "\<not> n div 10 < 10" "\<not> n div 10 div 10 < 10"
    using n h t by simp_all
  have a: "showNat n = showNat (n div 10) @ [digitChars ! (n mod 10)]"
    using big showNat.simps[of n] by simp
  have b: "showNat (n div 10) = showNat (n div 10 div 10) @ [digitChars ! (n div 10 mod 10)]"
    using big showNat.simps[of "n div 10"] by simp
  have c: "showNat (n div 10 div 10)
      = showNat (n div 10 div 10 div 10) @ [digitChars ! (n div 10 div 10 mod 10)]"
    using big showNat.simps[of "n div 10 div 10"] by simp
  have "length (showNat (n div 10 div 10 div 10)) \<ge> 1"
    using showNat_nonempty[of "n div 10 div 10 div 10"] by (simp add: Suc_le_eq)
  then show ?thesis unfolding a b c by simp
qed

lemma isoDate_parts:
  assumes "0 \<le> y" "0 \<le> m" "0 \<le> d"
  shows "isoDate y m d = padStart (showNat (nat y)) 4 (CHR ''0'') @ [CHR ''-'']
           @ padStart (showNat (nat m)) 2 (CHR ''0'') @ [CHR ''-'']
           @ padStart (showNat (nat d)) 2 (CHR ''0'')"
  using assms by (simp add: isoDate_def showInt_def)

lemma parseLocalDate_iso:
  assumes "validCalendarDate y m d" "100 \<le> y"
  shows "parseLocalDate (isoDate y m d) = LocalDate y (m - 1) d"
proof -
  have pos: "0 \<le> y" "0 \<le> m" "0 \<le> d" using assms by (simp_all add: validCalendarDate_def)
  define a where "a = padStart (showNat (nat y)) 4 (CHR ''0'')"
  define b where "b = padStart (showNat (nat m)) 2 (CHR ''0'')"
  define c where "c = padStart (showNat (nat d)) 2 (CHR ''0'')"
  have iso: "isoDate y m d = a @ [CHR ''-''] @ b @ [CHR ''-''] @ c"
    using isoDate_parts[OF pos] by (simp add: a_def b_def c_def)
  have sp: "splitOn (CHR ''-'') (isoDate y m d) = [a, b, c]"
    unfolding iso a_def b_def c_def by (intro splitOn_three padded_no_dash)
  have na: "jsNumber a = Some y" using pos unfolding a_def by (simp add: jsNumber_padded)
  have nb: "jsNumber b = Some m" using pos unfolding b_def by (simp add: jsNumber_padded)
  have nc: "jsNumber c = Some d" using pos unfolding c_def by (simp add: jsNumber_padded)
  have "parseLocalDate (isoDate y m d) = newDate (Some y) (Some (m - 1)) (Some d)"
    by (simp add: parseLocalDate_def dateComponent_def sp na nb nc)
  also have "\<dots> = LocalDate y (m - 1) d" using assms by (intro newDate_valid) simp_all
  finally show ?thesis .
qed

lemma formatDate_iso:
  assumes "validCalendarDate y m d" "1000 \<le> y"
  shows "formatDate (LocalDate y (m - 1) d) = isoDate y m d"
proof -
  have "4 \<le> length (showNat (nat y))" using assms(2) by (intro showNat_long) simp
  then have "padStart (showInt y) 4 (CHR ''0'') = showInt y"
    using assms(2) by (simp add: padStart_def showInt_def)
  then show ?thesis by (simp add: formatDate_def isoDate_def showNumber_def)
qed

lemma truthy_isoDate: "truthyString (Some (isoDate y m d))"
  by (simp add: truthyString_def isoDate_def)

lemma validateDateRange_custom:
  "validateDateRange now ''CUSTOM'' s e =
     (if \<not> truthyString s \<or> \<not> truthyString e
      then Inl (Error ''start_date and end_date required for CUSTOM range'')
      else Inr \<lparr> start = formatDate (parseLocalDate (the s)),
                 end' = formatDate (parseLocalDate (the e)) \<rparr>)"
  unfolding validateDateRange_def Let_def by simp

lemma custom_roundtrip:
  assumes "validCalendarDate y m d" "1000 \<le> y" "validCalendarDate y' m' d'" "1000 \<le> y'"
  shows "validateDateRange now ''CUSTOM'' (Some (isoDate y m d)) (Some (isoDate y' m' d'))
     = Inr \<lparr> start = isoDate y m d, end' = isoDate y' m' d' \<rparr>"
proof -
  have 1: "formatDate (parseLocalDate (isoDate y m d)) = isoDate y m d"
    using assms(1,2) by (simp add: parseLocalDate_iso formatDate_iso)
  have 2: "formatDate (parseLocalDate (isoDate y' m' d')) = isoDate y' m' d'"
    using assms(3,4) by (simp add: parseLocalDate_iso formatDate_iso)
  show ?thesis
    by (simp add: validateDateRange_custom truthy_isoDate 1 2)
qed

lemma custom_missing:
  "\<not> truthyString s \<or> \<not> truthyString e \<Longrightarrow>
     validateDateRange now ''CUSTOM'' s e
       = Inl (Error ''start_date and end_date required for CUSTOM range'')"
  by (simp add: validateDateRange_custom)

section \<open>Claims\<close>

text \<open>
  C1. For every query string, \<open>blockMutations\<close> throws exactly when the lower-cased
  query contains one of the keywords create, update, remove, mutate, delete as a
  substring. The message of the error names the first keyword, in the declared order,
  that occurs in the lower-cased query. A query made of white space only, the empty
  query included, does not throw.
\<close>

theorem blockMutations_keyword_scan:
  "((\<exists>e. blockMutations q = Inl e) \<longleftrightarrow>
      (\<exists>k \<in> set MUTATION_KEYWORDS. \<exists>p r. toLowerCase q = p @ k @ r))
   \<and> (\<forall>e. blockMutations q = Inl e \<longrightarrow>
        (\<exists>i < length MUTATION_KEYWORDS.
           e = Error (mutationMessage (MUTATION_KEYWORDS ! i))
           \<and> (\<exists>p r. toLowerCase q = p @ MUTATION_KEYWORDS ! i @ r)
           \<and> (\<forall>j < i. \<not> (\<exists>p r. toLowerCase q = p @ MUTATION_KEYWORDS ! j @ r))))
   \<and> ((\<forall>c \<in> set q. isSpace c) \<longrightarrow> blockMutations q = Inr ())"
proof (intro conjI allI impI)
  have "(\<exists>e. blockMutations q = Inl e) \<longleftrightarrow> \<not> (blockMutations q = Inr ())"
    by (cases "blockMutations q") auto
  also have "\<dots> \<longleftrightarrow> (\<exists>k \<in> set MUTATION_KEYWORDS. jsIncludes (toLowerCase q) k)"
    by (simp add: blockMutations_def blockMutations_loop_passes)
  finally show "(\<exists>e. blockMutations q = Inl e) \<longleftrightarrow>
      (\<exists>k \<in> set MUTATION_KEYWORDS. \<exists>p r. toLowerCase q = p @ k @ r)"
    by (simp only: jsIncludes_iff)
next
  fix e
  assume "blockMutations q = Inl e"
  then show "\<exists>i < length MUTATION_KEYWORDS.
           e = Error (mutationMessage (MUTATION_KEYWORDS ! i))
           \<and> (\<exists>p r. toLowerCase q = p @ MUTATION_KEYWORDS ! i @ r)
           \<and> (\<forall>j < i. \<not> (\<exists>p r. toLowerCase q = p @ MUTATION_KEYWORDS ! j @ r))"
    using blockMutations_loop_first[of "toLowerCase q" MUTATION_KEYWORDS e]
    by (simp only: blockMutations_def jsIncludes_iff)
next
  assume blank: "\<forall>c \<in> set q. isSpace c"
  have "\<not> jsIncludes (toLowerCase q) k" if "k \<in> set MUTATION_KEYWORDS" for k
  proof
    assume "jsIncludes (toLowerCase q) k"
    then have "set k \<subseteq> set q"
      using jsIncludes_set toLowerCase_spaces[OF blank] by fastforce
    then show False using keyword_not_blank[OF that] blank by blast
  qed
  then show "blockMutations q = Inr ()"
    by (simp add: blockMutations_def blockMutations_loop_passes)
qed

theorem blockMutations_keyword_scan_witness:
  "blockMutations ''Update campaign; DELETE it'' = Inl (Error (mutationMessage ''update''))
   \<and> blockMutations [CHR 0x20, CHR 0x0A] = Inr ()"
proof
  define q where "q = ''Update campaign; DELETE it''"
  define rest where "rest = '' campaign; delete it''"
  have low: "toLowerCase q = ''update campaign; delete it''"
    by (simp add: q_def toLowerCase_def toLowerChar_def upperChars_def lowerChars_def)
  have dec: "toLowerCase q = [] @ MUTATION_KEYWORDS ! 1 @ rest"
    by (simp add: low rest_def MUTATION_KEYWORDS_def)
  have mem: "MUTATION_KEYWORDS ! 1 \<in> set MUTATION_KEYWORDS"
    by (simp add: MUTATION_KEYWORDS_def)
  have "\<not> jsIncludes (toLowerCase q) (MUTATION_KEYWORDS ! 0)"
    by (simp add: low MUTATION_KEYWORDS_def)
  then have no_create: "\<not> (\<exists>p r. toLowerCase q = p @ MUTATION_KEYWORDS ! 0 @ r)"
    unfolding jsIncludes_iff .
  note scan = blockMutations_keyword_scan[of q]
  from scan dec mem have "\<exists>e. blockMutations q = Inl e" by blast
  then obtain e where e: "blockMutations q = Inl e" by blast
  with scan obtain i where i: "i < length MUTATION_KEYWORDS"
      "e = Error (mutationMessage (MUTATION_KEYWORDS ! i))"
      "\<forall>j < i. \<not> (\<exists>p r. toLowerCase q = p @ MUTATION_KEYWORDS ! j @ r)"
      "\<exists>p r. toLowerCase q = p @ MUTATION_KEYWORDS ! i @ r"
    by blast
  have "\<not> 1 < i" using i(3) dec by blast
  moreover have "i \<noteq> 0"
  proof
    assume "i = 0"
    with i(4) no_create show False by simp
  qed
  ultimately have "i = 1" by simp
  then show "blockMutations ''Update campaign; DELETE it''
      = Inl (Error (mutationMessage ''update''))"
    using e i(2) by (simp add: q_def MUTATION_KEYWORDS_def)
next
  define b where "b = [CHR 0x20, CHR 0x0A]"
  have "\<forall>c \<in> set b. isSpace c" by (simp add: b_def isSpace_def)
  then have "blockMutations b = Inr ()"
    using blockMutations_keyword_scan[of b] by blast
  then show "blockMutations [CHR 0x20, CHR 0x0A] = Inr ()" by (simp add: b_def)
qed



text \<open>
  C10. The first entry of \<open>commonIssues\<close> has the pattern \<open>/conversions_value/i\<close>, which
  is the correct field name itself. So every query whose text contains
  \<open>conversions_value\<close> in any letter case gets the warning
  "Should be conversions_value (with underscore)", a query that selects
  \<open>metrics.conversions_value\<close> included.
\<close>

theorem conversions_value_always_warned:
  "(\<exists>p r. toLowerCase q = p @ ''conversions_value'' @ r) \<Longrightarrow>
     ''Should be conversions_value (with underscore)'' \<in> set (warnings (validateQuery q))"
proof -
  assume "\<exists>p r. toLowerCase q = p @ ''conversions_value'' @ r"
  then obtain p r where "toLowerCase q = p @ ''conversions_value'' @ r" by blast
  moreover have "toLowerCase ''conversions_value'' = ''conversions_value''"
    by (simp add: toLowerCase_def toLowerChar_def upperChars_def lowerChars_def)
  ultimately have "regexTestCI ''conversions_value'' q"
    using regexTestCI_lower[of q p "''conversions_value''" r] by simp
  moreover have "(regexTestCI ''conversions_value'', ''Should be conversions_value (with underscore)'')
      \<in> set commonIssues"
    by (simp add: commonIssues_def)
  ultimately have "''Should be conversions_value (with underscore)''
      \<in> set (pushIssues commonIssues q [])"
    by (rule pushIssues_pushes[rotated])
  then show ?thesis using validateQuery_warnings_keep by blast
qed

theorem conversions_value_always_warned_witness:
  "''Should be conversions_value (with underscore)''
     \<in> set (warnings (validateQuery ''SELECT metrics.Conversions_Value FROM campaign''))
   \<and> valid (validateQuery ''SELECT metrics.Conversions_Value FROM campaign'')"
proof
  define q where "q = ''SELECT metrics.Conversions_Value FROM campaign''"
  have "toLowerCase q = ''select metrics.'' @ ''conversions_value'' @ '' from campaign''"
    by (simp add: q_def toLowerCase_def toLowerChar_def upperChars_def lowerChars_def)
  then have "\<exists>p r. toLowerCase q = p @ ''conversions_value'' @ r" by blast
  then have "''Should be conversions_value (with underscore)'' \<in> set (warnings (validateQuery q))"
    by (rule conversions_value_always_warned)
  then show "''Should be conversions_value (with underscore)''
     \<in> set (warnings (validateQuery ''SELECT metrics.Conversions_Value FROM campaign''))"
    by (simp add: q_def)
next
  show "valid (validateQuery ''SELECT metrics.Conversions_Value FROM campaign'')"
    by code_simp
qed



text \<open>
  C5. \<open>buildQuery\<close> is a total function of the template and the parameters: on every
  template and every parameter object of the types above it returns a query. A token
  whose substitution is absent stays in the returned string wherever the template has
  it: the metrics token without a metrics array, the two date tokens without a date pair,
  and likewise the minimum-cost, resource, single-date, quality-score, segment and
  geo-level tokens. The linter never changes the result: the returned string is the
  cleaned substituted template whether or not it is valid, and a failed validation only
  adds one line to the error console.
\<close>

theorem buildQuery_pass_through:
  "(metrics p = None \<and> jsIncludes t ''{{METRICS}}''
      \<longrightarrow> jsIncludes (fst (buildQuery t p c)) ''{{METRICS}}'')
   \<and> (dates p = None \<and> jsIncludes t ''{{START_DATE}}''
      \<longrightarrow> jsIncludes (fst (buildQuery t p c)) ''{{START_DATE}}'')
   \<and> (dates p = None \<and> jsIncludes t ''{{END_DATE}}''
      \<longrightarrow> jsIncludes (fst (buildQuery t p c)) ''{{END_DATE}}'')
   \<and> (minCost p = None \<and> jsIncludes t ''{{MIN_COST_MICROS}}''
      \<longrightarrow> jsIncludes (fst (buildQuery t p c)) ''{{MIN_COST_MICROS}}'')
   \<and> (resourceId p = None \<and> jsIncludes t ''{{RESOURCE_ID}}''
      \<longrightarrow> jsIncludes (fst (buildQuery t p c)) ''{{RESOURCE_ID}}'')
   \<and> (date p = None \<and> jsIncludes t ''{{DATE}}''
      \<longrightarrow> jsIncludes (fst (buildQuery t p c)) ''{{DATE}}'')
   \<and> (maxQualityScore p = None \<and> jsIncludes t ''{{MAX_QUALITY_SCORE}}''
      \<longrightarrow> jsIncludes (fst (buildQuery t p c)) ''{{MAX_QUALITY_SCORE}}'')
   \<and> (segmentField p = None \<and> jsIncludes t ''{{SEGMENT_FIELD}}''
      \<longrightarrow> jsIncludes (fst (buildQuery t p c)) ''{{SEGMENT_FIELD}}'')
   \<and> (geoLevel p = None \<and> jsIncludes t ''{{GEO_LEVEL}}''
      \<longrightarrow> jsIncludes (fst (buildQuery t p c)) ''{{GEO_LEVEL}}'')
   \<and> fst (buildQuery t p c)
       = replaceWhitespaceRuns (trim (foldl applySubstitution t (substitutionTable p)))
   \<and> (\<not> valid (validateQuery (fst (buildQuery t p c))) \<longrightarrow>
        snd (buildQuery t p c)
          = c @ [''GAQL validation errors: ''
                 @ joinWith ''; '' (errors (validateQuery (fst (buildQuery t p c))))])
   \<and> (valid (validateQuery (fst (buildQuery t p c))) \<longrightarrow> snd (buildQuery t p c) = c)"
proof -
  have left: "jsIncludes (fst (buildQuery t p c)) A"
    if "(A, None) \<in> set (substitutionTable p)" "jsIncludes t A" for A
    using that(1) table_distinct that(2) by (rule token_left_alone)
  note log = buildQuery_console[of t p c]
  have "\<not> valid (validateQuery (fst (buildQuery t p c))) \<longrightarrow>
        snd (buildQuery t p c)
          = c @ [''GAQL validation errors: ''
                 @ joinWith ''; '' (errors (validateQuery (fst (buildQuery t p c))))]"
    unfolding log by (simp add: logValidation_def validateQuery_valid)
  moreover have "valid (validateQuery (fst (buildQuery t p c))) \<longrightarrow> snd (buildQuery t p c) = c"
    unfolding log by simp
  moreover have "metrics p = None \<and> jsIncludes t ''{{METRICS}}''
      \<longrightarrow> jsIncludes (fst (buildQuery t p c)) ''{{METRICS}}''"
    by (intro impI left) (simp_all add: substitutionTable_def)
  moreover have "dates p = None \<and> jsIncludes t ''{{START_DATE}}''
      \<longrightarrow> jsIncludes (fst (buildQuery t p c)) ''{{START_DATE}}''"
    by (intro impI left) (simp_all add: substitutionTable_def)
  moreover have "dates p = None \<and> jsIncludes t ''{{END_DATE}}''
      \<longrightarrow> jsIncludes (fst (buildQuery t p c)) ''{{END_DATE}}''"
    by (intro impI left) (simp_all add: substitutionTable_def)
  moreover have "minCost p = None \<and> jsIncludes t ''{{MIN_COST_MICROS}}''
      \<longrightarrow> jsIncludes (fst (buildQuery t p c)) ''{{MIN_COST_MICROS}}''"
    by (intro impI left) (simp_all add: substitutionTable_def)
  moreover have "resourceId p = None \<and> jsIncludes t ''{{RESOURCE_ID}}''
      \<longrightarrow> jsIncludes (fst (buildQuery t p c)) ''{{RESOURCE_ID}}''"
    by (intro impI left) (simp_all add: substitutionTable_def)
  moreover have "date p = None \<and> jsIncludes t ''{{DATE}}''
      \<longrightarrow> jsIncludes (fst (buildQuery t p c)) ''{{DATE}}''"
    by (intro impI left) (simp_all add: substitutionTable_def)
  moreover have "maxQualityScore p = None \<and> jsIncludes t ''{{MAX_QUALITY_SCORE}}''
      \<longrightarrow> jsIncludes (fst (buildQuery t p c)) ''{{MAX_QUALITY_SCORE}}''"
    by (intro impI left) (simp_all add: substitutionTable_def)
  moreover have "segmentField p = None \<and> jsIncludes t ''{{SEGMENT_FIELD}}''
      \<longrightarrow> jsIncludes (fst (buildQuery t p c)) ''{{SEGMENT_FIELD}}''"
    by (intro impI left) (simp_all add: substitutionTable_def)
  moreover have "geoLevel p = None \<and> jsIncludes t ''{{GEO_LEVEL}}''
      \<longrightarrow> jsIncludes (fst (buildQuery t p c)) ''{{GEO_LEVEL}}''"
    by (intro impI left) (simp_all add: substitutionTable_def)
  ultimately show ?thesis using buildQuery_fold[of t p c] by (intro conjI) assumption+
qed

theorem buildQuery_pass_through_witness:
  "jsIncludes (fst (buildQuery ''{{METRICS}} of {{DATE}} ; {{LIMIT}}'' emptyParams [])) ''{{METRICS}}''
   \<and> jsIncludes (fst (buildQuery ''{{METRICS}} of {{DATE}} ; {{LIMIT}}'' emptyParams [])) ''{{DATE}}''
   \<and> length (snd (buildQuery ''{{METRICS}} of {{DATE}} ; {{LIMIT}}'' emptyParams [])) = 1"
proof -
  define t where "t = ''{{METRICS}} of {{DATE}} ; {{LIMIT}}''"
  note pass = buildQuery_pass_through[of emptyParams t "[]"]
  have m: "metrics emptyParams = None \<and> jsIncludes t ''{{METRICS}}''"
    by (simp add: emptyParams_def t_def)
  have d: "date emptyParams = None \<and> jsIncludes t ''{{DATE}}''"
    by (simp add: emptyParams_def t_def)
  have 1: "jsIncludes (fst (buildQuery t emptyParams [])) ''{{METRICS}}''"
    using pass[THEN conjunct1, rule_format, OF m] .
  have 2: "jsIncludes (fst (buildQuery t emptyParams [])) ''{{DATE}}''"
    using pass[THEN conjunct2, THEN conjunct2, THEN conjunct2, THEN conjunct2, THEN conjunct2,
        THEN conjunct1, rule_format, OF d] .
  have "\<exists>pre name post. fst (buildQuery t emptyParams []) = pre @ ''{{'' @ name @ ''}}'' @ post
      \<and> name \<noteq> [] \<and> (\<forall>c \<in> set name. isTemplateNameChar c)"
  proof -
    from 1 obtain pre post where "fst (buildQuery t emptyParams []) = pre @ ''{{METRICS}}'' @ post"
      by (auto simp: jsIncludes_iff)
    then have "fst (buildQuery t emptyParams []) = pre @ ''{{'' @ ''METRICS'' @ ''}}'' @ post"
      by simp
    moreover have "''METRICS'' \<noteq> [] \<and> (\<forall>c \<in> set ''METRICS''. isTemplateNameChar c)"
      by (simp add: isTemplateNameChar_def upperChars_def)
    ultimately show ?thesis by blast
  qed
  then have "matchTemplateVars (fst (buildQuery t emptyParams [])) \<noteq> None"
    by (simp only: matchTemplateVars_None_iff not_not)
  then have "\<not> valid (validateQuery (fst (buildQuery t emptyParams [])))"
    by (simp add: validateQuery_valid validateQuery_errors_empty)
  then have "snd (buildQuery t emptyParams [])
      = [] @ [''GAQL validation errors: ''
              @ joinWith ''; '' (errors (validateQuery (fst (buildQuery t emptyParams []))))]"
    using pass by blast
  then have 3: "length (snd (buildQuery t emptyParams [])) = 1" by simp
  from 1 2 3 show ?thesis by (simp only: t_def)
qed












end
